theory Spec2Isabelle
  imports Main "HOL-Library.Multiset"
begin

section \<open>Data model (types.ts)\<close>

datatype Operator = IF | THEN | AND | OR | PLUS | MINUS | MULT | OVER | START

text \<open>
  \<open>CellData\<close>: \<open>letter\<close> is \<open>string | null\<close>; the optional fields \<open>isLocked\<close> and
  \<open>isBlank\<close> are only ever tested for truthiness (an absent field reads as false), and
  \<open>turnPlaced\<close> is only ever read as \<open>turnPlaced || 0\<close>.
\<close>

record CellData =
  cellId :: string
  row :: nat
  col :: nat
  operator :: "Operator option"
  letter :: "string option"
  isLocked :: bool
  isBlank :: bool
  turnPlaced :: "nat option"

type_synonym Grid = "CellData list list"

definition BOARD_SIZE :: nat where
  "BOARD_SIZE = 11"


section \<open>Tile system (utils/tileSystem.ts)\<close>

definition LETTER_DISTRIBUTION :: "(string \<times> nat) list" where
  "LETTER_DISTRIBUTION =
    [(''A'', 9), (''B'', 2), (''C'', 2), (''D'', 4), (''E'', 12), (''F'', 2), (''G'', 3),
     (''H'', 2), (''I'', 9), (''J'', 1), (''K'', 1), (''L'', 4), (''M'', 2),
     (''N'', 6), (''O'', 8), (''P'', 2), (''Q'', 1), (''R'', 6), (''S'', 4), (''T'', 6),
     (''U'', 4), (''V'', 2), (''W'', 2), (''X'', 1), (''Y'', 2), (''Z'', 1),
     (''*'', 2)]"

definition LETTER_VALUES :: "(string \<times> int) list" where
  "LETTER_VALUES =
    [(''A'', 1), (''B'', 3), (''C'', 3), (''D'', 2), (''E'', 1), (''F'', 4), (''G'', 2),
     (''H'', 4), (''I'', 1), (''J'', 8), (''K'', 5), (''L'', 1), (''M'', 3),
     (''N'', 1), (''O'', 1), (''P'', 3), (''Q'', 10), (''R'', 1), (''S'', 1), (''T'', 1),
     (''U'', 1), (''V'', 4), (''W'', 4), (''X'', 8), (''Y'', 4), (''Z'', 10),
     (''*'', 0)]"

text \<open>
  The first loop of \<open>generateTileBag\<close>: for every entry of the table, in insertion
  order, push the letter \<open>count\<close> times.
\<close>

definition expandDistribution :: "(string \<times> nat) list \<Rightarrow> string list" where
  "expandDistribution table =
     foldl (\<lambda>acc (l, n). acc @ replicate n l) [] table"

text \<open>The destructuring swap \<open>[bag[i], bag[j]] = [bag[j], bag[i]]\<close>.\<close>

definition swapAt :: "nat \<Rightarrow> nat \<Rightarrow> 'a list \<Rightarrow> 'a list" where
  "swapAt i j xs = xs[i := xs ! j, j := xs ! i]"

text \<open>
  The Fisher-Yates loop \<open>for (i = bag.length - 1; i > 0; i--)\<close>. The random source is
  a parameter: \<open>js i\<close> is the index \<open>Math.floor(Math.random() * (i + 1))\<close> drawn in the
  iteration with counter \<open>i\<close>; \<open>Math.random()\<close> lies in \<open>[0, 1)\<close>, so \<open>js i \<le> i\<close>.
\<close>

fun fisherYates :: "(nat \<Rightarrow> nat) \<Rightarrow> nat \<Rightarrow> 'a list \<Rightarrow> 'a list" where
  "fisherYates js 0 xs = xs"
| "fisherYates js (Suc k) xs = fisherYates js k (swapAt (Suc k) (js (Suc k)) xs)"

definition generateTileBag :: "(nat \<Rightarrow> nat) \<Rightarrow> string list" where
  "generateTileBag js =
     (let tiles = expandDistribution LETTER_DISTRIBUTION
      in fisherYates js (length tiles - 1) tiles)"

record DrawResult =
  hand :: "string list"
  bag :: "string list"

definition drawTiles :: "string list \<Rightarrow> string list \<Rightarrow> DrawResult" where
  "drawTiles currentHand tileBag =
     (let needed = 7 - int (length currentHand) in
      if needed \<le> 0 \<or> length tileBag = 0
      then \<lparr>hand = currentHand, bag = tileBag\<rparr>
      else
        let drawn = take (nat needed) tileBag;
            newBag = drop (nat needed) tileBag;
            newHand = currentHand @ drawn
        in \<lparr>hand = newHand, bag = newBag\<rparr>)"


section \<open>Board layout (utils/boardGen.ts)\<close>

text \<open>Decimal numerals, for the cell identifiers \<open>`${r}-${c}`\<close> and the run identifiers.\<close>

definition digitChar :: "nat \<Rightarrow> char" where
  "digitChar d = ''0123456789'' ! d"

fun showNat :: "nat \<Rightarrow> string" where
  "showNat n = (if n < 10 then [digitChar n] else showNat (n div 10) @ [digitChar (n mod 10)])"

definition mkCellId :: "nat \<Rightarrow> nat \<Rightarrow> string" where
  "mkCellId r c = showNat r @ ''-'' @ showNat c"

text \<open>The layered rule set of \<open>generateBoard\<close>: the first matching branch wins.\<close>

definition absDiff :: "nat \<Rightarrow> nat \<Rightarrow> nat" where
  "absDiff a b = (if a < b then b - a else a - b)"

definition operatorAt :: "nat \<Rightarrow> nat \<Rightarrow> Operator option" where
  "operatorAt r c =
     (if (r = 0 \<or> r = BOARD_SIZE - 1) \<and> (c = 0 \<or> c = BOARD_SIZE - 1) then Some MULT
      else if r = 5 \<and> c = 5 then Some START
      else if r = 2 \<and> c = 8 then Some OVER
      else if r = 4 \<and> c = 4 then Some IF
      else if r = 5 \<and> c = 0 then Some OVER
      else if r = 6 \<and> c = 6 then Some OR
      else if r = 5 \<and> c = 10 then Some IF
      else if r = 8 \<and> c = 2 then Some OR
      else if (r = 2 \<or> r = 8) \<and> (c = 2 \<or> c = 8) then Some IF
      else if (r = 2 \<or> r = 8) \<and> c = 5 then Some THEN
      else if (c = 2 \<or> c = 8) \<and> r = 5 then Some THEN
      else if absDiff r 5 = absDiff c 5 \<and> r \<noteq> 5 \<and> r \<noteq> 0 \<and> r \<noteq> 10 then
        (if absDiff r 5 = 1 then Some OVER else Some AND)
      else if (r = 1 \<or> r = 9) \<and> c = 5 then Some PLUS
      else if (c = 1 \<or> c = 9) \<and> r = 5 then Some MINUS
      else if (r = 0 \<or> r = 10) \<and> c = 5 then Some OR
      else if (c = 0 \<or> c = 10) \<and> r = 5 then Some OR
      else None)"

definition generateBoard :: Grid where
  "generateBoard =
     map (\<lambda>r. map (\<lambda>c.
            \<lparr>cellId = mkCellId r c, row = r, col = c, operator = operatorAt r c,
             letter = None, isLocked = False, isBlank = False, turnPlaced = None\<rparr>)
          [0 ..< BOARD_SIZE])
       [0 ..< BOARD_SIZE]"

text \<open>
  A board as every function below expects it: \<open>BOARD_SIZE\<close> rows of \<open>BOARD_SIZE\<close>
  cells. (On any other value the source would read \<open>undefined\<close> and throw.)
\<close>

definition wellFormed :: "Grid \<Rightarrow> bool" where
  "wellFormed grid =
     (length grid = BOARD_SIZE \<and> list_all (\<lambda>cells. length cells = BOARD_SIZE) grid)"

text \<open>
  Truthiness of \<open>cell.letter\<close>: \<open>null\<close> and the empty string are falsy. The nested
  loops \<open>for r ... for c ...\<close> visit the coordinates in row-major order.
\<close>

definition truthy :: "string option \<Rightarrow> bool" where
  "truthy l = (case l of None \<Rightarrow> False | Some s \<Rightarrow> s \<noteq> [])"

definition coords :: "(nat \<times> nat) list" where
  "coords = concat (map (\<lambda>r. map (\<lambda>c. (r, c)) [0 ..< BOARD_SIZE]) [0 ..< BOARD_SIZE])"

text \<open>Placing a tile on a cell, to write example boards.\<close>

definition putTile :: "nat \<Rightarrow> nat \<Rightarrow> string \<Rightarrow> bool \<Rightarrow> nat option \<Rightarrow> Grid \<Rightarrow> Grid" where
  "putTile r c l locked t grid =
     grid[r := (grid ! r)[c := (grid ! r ! c)\<lparr>letter := Some l, isLocked := locked,
                                             turnPlaced := t\<rparr>]]"


section \<open>Validation (validatePlacementRules)\<close>

text \<open>Step 0, the isolation check: every lettered cell needs a lettered neighbour.\<close>

definition hasHorz :: "Grid \<Rightarrow> nat \<Rightarrow> nat \<Rightarrow> bool" where
  "hasHorz grid r c =
     ((c > 0 \<and> truthy (letter (grid ! r ! (c - 1))))
      \<or> (c < BOARD_SIZE - 1 \<and> truthy (letter (grid ! r ! (c + 1)))))"

definition hasVert :: "Grid \<Rightarrow> nat \<Rightarrow> nat \<Rightarrow> bool" where
  "hasVert grid r c =
     ((r > 0 \<and> truthy (letter (grid ! (r - 1) ! c)))
      \<or> (r < BOARD_SIZE - 1 \<and> truthy (letter (grid ! (r + 1) ! c))))"

definition isolationCheck :: "Grid \<Rightarrow> bool" where
  "isolationCheck grid =
     list_all (\<lambda>(r, c).
        if truthy (letter (grid ! r ! c))
        then \<not> (\<not> hasHorz grid r c \<and> \<not> hasVert grid r c)
        else True) coords"

text \<open>
  Step 1, the connectivity check. The flag \<open>isConnected\<close> is set by the first new tile
  that has a locked lettered neighbour, and both loops stop there.
\<close>

definition hasLockedTiles :: "Grid \<Rightarrow> bool" where
  "hasLockedTiles grid =
     list_ex (\<lambda>cells. list_ex (\<lambda>cell. isLocked cell \<and> truthy (letter cell)) cells) grid"

definition newTilesOf :: "Grid \<Rightarrow> (nat \<times> nat) list" where
  "newTilesOf grid =
     filter (\<lambda>(r, c). truthy (letter (grid ! r ! c)) \<and> \<not> isLocked (grid ! r ! c)) coords"

definition neighbors4 :: "int \<Rightarrow> int \<Rightarrow> (int \<times> int) list" where
  "neighbors4 r c = [(r - 1, c), (r + 1, c), (r, c - 1), (r, c + 1)]"

definition lockedNeighbor :: "Grid \<Rightarrow> int \<times> int \<Rightarrow> bool" where
  "lockedNeighbor grid n =
     (case n of (nr, nc) \<Rightarrow>
        if nr \<ge> 0 \<and> nr < int BOARD_SIZE \<and> nc \<ge> 0 \<and> nc < int BOARD_SIZE
        then (let neighborCell = grid ! nat nr ! nat nc
              in truthy (letter neighborCell) \<and> isLocked neighborCell)
        else False)"

definition connectivityCheck :: "Grid \<Rightarrow> bool" where
  "connectivityCheck grid =
     (if hasLockedTiles grid then
        (let newTiles = newTilesOf grid in
         if length newTiles > 0 then
           (let isConnected =
                  list_ex (\<lambda>(r, c). list_ex (lockedNeighbor grid) (neighbors4 (int r) (int c)))
                    newTiles
            in isConnected)
         else True)
      else True)"

text \<open>
  \<open>checkLine\<close>. The block run for a word of more than one letter (it stands twice in
  the source, in the loop and after it): dictionary membership and, in FIXED mode, no
  two locked letters in a row inside a word that has an unlocked letter.
\<close>

fun lockedRunOk :: "nat \<Rightarrow> bool list \<Rightarrow> bool" where
  "lockedRunOk lockedRun [] = True"
| "lockedRunOk lockedRun (locked # rest) =
     (if locked then (if lockedRun + 1 > 1 then False else lockedRunOk (lockedRun + 1) rest)
      else lockedRunOk 0 rest)"

definition wordAccepted :: "string set \<Rightarrow> string \<Rightarrow> string \<Rightarrow> bool list \<Rightarrow> bool" where
  "wordAccepted dictionary gameMode currentWord currentWordMeta =
     (if currentWord \<notin> dictionary then False
      else if gameMode = ''FIXED'' then
        (let hasUnlocked = list_ex (\<lambda>locked. \<not> locked) currentWordMeta
         in if hasUnlocked then lockedRunOk 0 currentWordMeta else True)
      else True)"

fun checkLineFrom ::
  "string set \<Rightarrow> string \<Rightarrow> string \<Rightarrow> bool list \<Rightarrow> CellData list \<Rightarrow> bool" where
  "checkLineFrom dictionary gameMode currentWord currentWordMeta [] =
     (if length currentWord > 1
      then wordAccepted dictionary gameMode currentWord currentWordMeta
      else True)"
| "checkLineFrom dictionary gameMode currentWord currentWordMeta (cell # cells) =
     (if truthy (letter cell)
      then checkLineFrom dictionary gameMode (currentWord @ the (letter cell))
             (currentWordMeta @ [isLocked cell]) cells
      else if length currentWord > 1
              \<and> \<not> wordAccepted dictionary gameMode currentWord currentWordMeta
      then False
      else checkLineFrom dictionary gameMode [] [] cells)"

definition checkLine :: "string set \<Rightarrow> string \<Rightarrow> CellData list \<Rightarrow> bool" where
  "checkLine dictionary gameMode cells = checkLineFrom dictionary gameMode [] [] cells"

definition columnOf :: "Grid \<Rightarrow> nat \<Rightarrow> CellData list" where
  "columnOf grid c = map (\<lambda>cells. cells ! c) grid"

definition validatePlacementRules ::
  "Grid \<Rightarrow> string \<Rightarrow> string \<Rightarrow> string set option \<Rightarrow> bool" where
  "validatePlacementRules grid gameMode placementMode dictionary =
     (case dictionary of
        None \<Rightarrow> False
      | Some dict \<Rightarrow>
          if \<not> isolationCheck grid then False
          else if placementMode = ''ACROSTIC'' \<and> \<not> connectivityCheck grid then False
          else if \<not> list_all (\<lambda>r. checkLine dict gameMode (grid ! r)) [0 ..< BOARD_SIZE]
          then False
          else if \<not> list_all (\<lambda>c. checkLine dict gameMode (columnOf grid c))
                     [0 ..< BOARD_SIZE]
          then False
          else True)"

section \<open>Blank resolution (resolveGridWithBlanks)\<close>

definition blankCoordsOf :: "Grid \<Rightarrow> (nat \<times> nat) list" where
  "blankCoordsOf grid = filter (\<lambda>(r, c). letter (grid ! r ! c) = Some ''*'') coords"

definition alphabet :: string where
  "alphabet = ''ABCDEFGHIJKLMNOPQRSTUVWXYZ''"

definition setLetter :: "Grid \<Rightarrow> nat \<Rightarrow> nat \<Rightarrow> string \<Rightarrow> Grid" where
  "setLetter grid r c l = grid[r := (grid ! r)[c := (grid ! r ! c)\<lparr>letter := Some l\<rparr>]]"

text \<open>
  \<open>trySolve\<close> works on one clone of the grid and mutates it; when a branch fails, every
  cell it wrote is a blank again (\<open>currentGrid[r][c].letter = '*'\<close> on the way out), so
  each attempt starts from the grid of the call with the one cell overwritten. The model
  passes that grid along. \<open>tryLetters\<close> is the loop over the alphabet for one blank.
\<close>

fun trySolve ::
    "string \<Rightarrow> string \<Rightarrow> string set option \<Rightarrow> (nat \<times> nat) list \<Rightarrow> Grid \<Rightarrow> Grid option"
  and tryLetters ::
    "string \<Rightarrow> string \<Rightarrow> string set option \<Rightarrow> nat \<Rightarrow> nat \<Rightarrow> (nat \<times> nat) list \<Rightarrow> string
       \<Rightarrow> Grid \<Rightarrow> Grid option" where
  "trySolve gameMode placementMode dictionary [] currentGrid =
     (if validatePlacementRules currentGrid gameMode placementMode dictionary
      then Some currentGrid else None)"
| "trySolve gameMode placementMode dictionary ((r, c) # rest) currentGrid =
     tryLetters gameMode placementMode dictionary r c rest alphabet currentGrid"
| "tryLetters gameMode placementMode dictionary r c rest [] currentGrid = None"
| "tryLetters gameMode placementMode dictionary r c rest (ch # chs) currentGrid =
     (case trySolve gameMode placementMode dictionary rest (setLetter currentGrid r c [ch]) of
        Some result \<Rightarrow> Some result
      | None \<Rightarrow> tryLetters gameMode placementMode dictionary r c rest chs currentGrid)"

definition resolveGridWithBlanks ::
  "Grid \<Rightarrow> string \<Rightarrow> string \<Rightarrow> string set option \<Rightarrow> Grid option" where
  "resolveGridWithBlanks grid gameMode placementMode dictionary =
     (case dictionary of
        None \<Rightarrow> None
      | Some dict \<Rightarrow>
          (let blankCoords = blankCoordsOf grid in
           if length blankCoords = 0
           then (if validatePlacementRules grid gameMode placementMode dictionary
                 then Some grid else None)
           else trySolve gameMode placementMode dictionary blankCoords grid))"

section \<open>The specification's reading of the connectivity rule\<close>

definition newlyPlaced :: "Grid \<Rightarrow> nat \<Rightarrow> nat \<Rightarrow> bool" where
  "newlyPlaced grid r c = (truthy (letter (grid ! r ! c)) \<and> \<not> isLocked (grid ! r ! c))"

definition lockedLettered :: "Grid \<Rightarrow> nat \<Rightarrow> nat \<Rightarrow> bool" where
  "lockedLettered grid r c = (truthy (letter (grid ! r ! c)) \<and> isLocked (grid ! r ! c))"

text \<open>A locked lettered orthogonal neighbour on the board.\<close>

definition touchesLocked :: "Grid \<Rightarrow> nat \<Rightarrow> nat \<Rightarrow> bool" where
  "touchesLocked grid r c =
     ((r > 0 \<and> lockedLettered grid (r - 1) c)
      \<or> (r + 1 < BOARD_SIZE \<and> lockedLettered grid (r + 1) c)
      \<or> (c > 0 \<and> lockedLettered grid r (c - 1))
      \<or> (c + 1 < BOARD_SIZE \<and> lockedLettered grid r (c + 1)))"

text \<open>
  Two cells of one word: in one row or one column, with every cell between them
  lettered. A cell is linked to the locked tiles, directly or via a word it is part
  of, when a cell of one of its words (the cell itself included) is a locked letter or
  has a locked lettered neighbour.
\<close>

definition sameWord :: "Grid \<Rightarrow> nat \<Rightarrow> nat \<Rightarrow> nat \<Rightarrow> nat \<Rightarrow> bool" where
  "sameWord grid r c r' c' =
     ((r = r' \<and> list_all (\<lambda>k. truthy (letter (grid ! r ! k))) [min c c' ..< Suc (max c c')])
      \<or> (c = c' \<and> list_all (\<lambda>k. truthy (letter (grid ! k ! c))) [min r r' ..< Suc (max r r')]))"

definition linkedToLocked :: "Grid \<Rightarrow> nat \<Rightarrow> nat \<Rightarrow> bool" where
  "linkedToLocked grid r c =
     list_ex (\<lambda>(r', c'). sameWord grid r c r' c'
                \<and> (lockedLettered grid r' c' \<or> touchesLocked grid r' c')) coords"

text \<open>
  An example board: the locked word AB in the middle row, the new tile C appended to
  it, and the new tiles X and Y in the top left corner, away from every locked tile.
\<close>

definition strayBoard :: Grid where
  "strayBoard =
     putTile 0 0 ''X'' False None (putTile 0 1 ''Y'' False None
       (putTile 5 7 ''C'' False None
         (putTile 5 5 ''A'' True (Some 1) (putTile 5 6 ''B'' True (Some 1) generateBoard))))"

text \<open>The same board without the tile C: no new tile touches a locked tile.\<close>

definition detachedBoard :: Grid where
  "detachedBoard =
     putTile 0 0 ''X'' False None (putTile 0 1 ''Y'' False None
       (putTile 5 5 ''A'' True (Some 1) (putTile 5 6 ''B'' True (Some 1) generateBoard)))"


section \<open>Base scoring (calculateScrabbleScore)\<close>

text \<open>\<open>LETTER_VALUES[k] || 0\<close>: a key outside the table scores 0.\<close>

definition letterValue :: "string \<Rightarrow> int" where
  "letterValue k = (case map_of LETTER_VALUES k of Some v \<Rightarrow> v | None \<Rightarrow> 0)"

definition getCellScore :: "CellData \<Rightarrow> int" where
  "getCellScore cell =
     (if isBlank cell then 0
      else letterValue (case letter cell of Some l \<Rightarrow> l | None \<Rightarrow> []))"

text \<open>
  The two loops of \<open>scan\<close>. The helper is called with the steps \<open>(dr, dc) = (0, 1)\<close> and
  \<open>(1, 0)\<close> only; the functions below take the step as natural numbers and stop at
  once for the step \<open>(0, 0)\<close>, with which the loops of the source would not end.
\<close>

function walkBack :: "Grid \<Rightarrow> nat \<Rightarrow> nat \<Rightarrow> nat \<Rightarrow> nat \<Rightarrow> nat \<times> nat" where
  "walkBack grid dr dc currR currC =
     (if (dr > 0 \<or> dc > 0)
         \<and> currR \<ge> dr \<and> currR - dr < BOARD_SIZE
         \<and> currC \<ge> dc \<and> currC - dc < BOARD_SIZE
         \<and> truthy (letter (grid ! (currR - dr) ! (currC - dc)))
      then walkBack grid dr dc (currR - dr) (currC - dc)
      else (currR, currC))"
  by pat_completeness auto
termination
  by (relation "measure (\<lambda>(grid, dr, dc, currR, currC). currR + currC)") auto

function walkForward :: "Grid \<Rightarrow> nat \<Rightarrow> nat \<Rightarrow> nat \<Rightarrow> nat \<Rightarrow> CellData list" where
  "walkForward grid dr dc currR currC =
     (if (dr > 0 \<or> dc > 0)
         \<and> currR < BOARD_SIZE \<and> currC < BOARD_SIZE
         \<and> truthy (letter (grid ! currR ! currC))
      then grid ! currR ! currC # walkForward grid dr dc (currR + dr) (currC + dc)
      else [])"
  by pat_completeness auto
termination
  by (relation "measure (\<lambda>(grid, dr, dc, currR, currC).
        (BOARD_SIZE - currR) + (BOARD_SIZE - currC))") auto

text \<open>
  \<open>scan\<close> updates \<open>totalScore\<close> and the set \<open>uniqueWords\<close> of run identifiers
  \<open>`${dr===0?'H':'V'}:${startR}-${startC}`\<close>.
\<close>

definition runId :: "nat \<Rightarrow> nat \<Rightarrow> nat \<Rightarrow> string" where
  "runId dr startR startC =
     (if dr = 0 then ''H'' else ''V'') @ '':'' @ showNat startR @ ''-'' @ showNat startC"

definition scan ::
  "Grid \<Rightarrow> int \<times> string list \<Rightarrow> nat \<Rightarrow> nat \<Rightarrow> nat \<Rightarrow> nat \<Rightarrow> int \<times> string list" where
  "scan grid st r c dr dc =
     (case st of (totalScore, uniqueWords) \<Rightarrow>
        (case walkBack grid dr dc r c of (startR, startC) \<Rightarrow>
           (let wordCells = walkForward grid dr dc startR startC in
            if length wordCells > 1 then
              (let wid = runId dr startR startC in
               if wid \<notin> set uniqueWords
               then (totalScore + foldl (\<lambda>s cell. s + getCellScore cell) 0 wordCells,
                     uniqueWords @ [wid])
               else (totalScore, uniqueWords))
            else (totalScore, uniqueWords))))"

definition calculateScrabbleScore :: "Grid \<Rightarrow> (nat \<times> nat) list \<Rightarrow> int" where
  "calculateScrabbleScore currentGrid newTiles =
     fst (foldl (\<lambda>st (r, c).
            if truthy (letter (currentGrid ! r ! c))
            then scan currentGrid (scan currentGrid st r c 0 1) r c 1 0
            else st)
          (0, []) newTiles)"

text \<open>
  Two boards that agree on which cells are lettered and on every cell's score: all the
  scoring functions read of a board.
\<close>

definition sameLetters :: "Grid \<Rightarrow> Grid \<Rightarrow> bool" where
  "sameLetters g g' =
     (\<forall>i j. truthy (letter (g' ! i ! j)) = truthy (letter (g ! i ! j))
            \<and> getCellScore (g' ! i ! j) = getCellScore (g ! i ! j))"

text \<open>An example board: the new word CAT in the middle row, its C played with a blank.\<close>

definition markBlank :: "nat \<Rightarrow> nat \<Rightarrow> Grid \<Rightarrow> Grid" where
  "markBlank r c grid = grid[r := (grid ! r)[c := (grid ! r ! c)\<lparr>isBlank := True\<rparr>]]"

definition blankCatBoard :: Grid where
  "blankCatBoard =
     markBlank 5 5 (putTile 5 5 ''C'' False None
       (putTile 5 6 ''A'' False None (putTile 5 7 ''T'' False None generateBoard)))"


section \<open>Logic chains: the records\<close>

text \<open>
  \<open>CompiledOp\<close>, the raw operator entries \<open>CompiledOp & { clusterId }\<close> (a record
  extension), \<open>WordMetadata\<close> and \<open>CompiledChain\<close>, as the source declares them. The
  identifier field \<open>id\<close> is \<open>opId\<close> here, and the fields of \<open>WordMetadata\<close> carry the
  prefix \<open>wm\<close>, since record fields share one name space.
\<close>

record CompiledOp =
  op :: Operator
  turn :: nat
  lastModifiedTurn :: nat
  word :: string
  opId :: string
  wordScore :: int
  cellIds :: "string list"

record RawOp = CompiledOp +
  clusterId :: nat

record WordMetadata =
  wmWord :: string
  wmScore :: int
  wmTurn :: nat
  wmCellIds :: "string list"
  wmClusterId :: nat

record 'x CompiledChain =
  chainId :: nat
  compiledOps :: "'x CompiledOp_scheme list"
  dataWords :: "string list"


section \<open>Logic chains: clusters and word extraction (analyzeBoardLogic)\<close>

text \<open>
  Step 1, GO mode only: breadth-first flood fill over the lettered cells. \<open>visited\<close> is
  a set of cell identifiers \<open>`${r}-${c}`\<close> and \<open>cellToCluster\<close> a map from them.
\<close>

definition getNeighbors :: "nat \<Rightarrow> nat \<Rightarrow> (nat \<times> nat) list" where
  "getNeighbors r c =
     map (\<lambda>(nr, nc). (nat nr, nat nc))
       (filter (\<lambda>(nr, nc). nr \<ge> 0 \<and> nr < int BOARD_SIZE \<and> nc \<ge> 0 \<and> nc < int BOARD_SIZE)
          (neighbors4 (int r) (int c)))"

definition allCellIds :: "string set" where
  "allCellIds = set (map (\<lambda>(r, c). mkCellId r c) coords)"

definition visitNeighbor ::
  "Grid \<Rightarrow> nat \<Rightarrow> string set \<times> (string \<rightharpoonup> nat) \<times> (nat \<times> nat) list \<Rightarrow> nat \<times> nat
     \<Rightarrow> string set \<times> (string \<rightharpoonup> nat) \<times> (nat \<times> nat) list" where
  "visitNeighbor grid nextClusterId st n =
     (case st of (visited, cellToCluster, q) \<Rightarrow>
        (let nid = mkCellId (fst n) (snd n) in
         if truthy (letter (grid ! fst n ! snd n)) \<and> nid \<notin> visited
         then (insert nid visited, cellToCluster(nid \<mapsto> nextClusterId), q @ [n])
         else (visited, cellToCluster, q)))"

function floodFill ::
  "Grid \<Rightarrow> nat \<Rightarrow> string set \<Rightarrow> (string \<rightharpoonup> nat) \<Rightarrow> (nat \<times> nat) list
     \<Rightarrow> string set \<times> (string \<rightharpoonup> nat)" where
  "floodFill grid nextClusterId visited cellToCluster [] = (visited, cellToCluster)"
| "floodFill grid nextClusterId visited cellToCluster (cur # q) =
     (case foldl (visitNeighbor grid nextClusterId) (visited, cellToCluster, q)
             (getNeighbors (fst cur) (snd cur)) of
        (visited', cellToCluster', q') \<Rightarrow>
          floodFill grid nextClusterId visited' cellToCluster' q')"
  by pat_completeness auto
termination
proof (relation "measure (\<lambda>(grid, k, visited, m, q).
                   2 * card (allCellIds - visited) + length q)", goal_cases)
  case 1
  then show ?case by simp
next
  case (2 grid k visited m cur q x y xa ya)
  have fin: "finite allCellIds" by (simp add: allCellIds_def)
  have inBounds: "mkCellId (fst n) (snd n) \<in> allCellIds"
    if mem: "n \<in> set (getNeighbors (fst cur) (snd cur))" for n
  proof -
    obtain a b where n: "n = (a, b)" by (cases n)
    have "a < BOARD_SIZE \<and> b < BOARD_SIZE"
      using mem unfolding n by (auto simp: getNeighbors_def)
    moreover have "set coords = {(r, c). r < BOARD_SIZE \<and> c < BOARD_SIZE}"
      by (auto simp: coords_def)
    ultimately have "(a, b) \<in> set coords" by simp
    then show ?thesis unfolding allCellIds_def n by force
  qed
  have bound: "2 * card (allCellIds - v') + length q'
                 \<le> 2 * card (allCellIds - v) + length q0"
    if "\<forall>n\<in>set ns. mkCellId (fst n) (snd n) \<in> allCellIds"
      and "foldl (visitNeighbor grid k) (v, m0, q0) ns = (v', m', q')"
    for ns v m0 q0 v' m' q'
    using that
  proof (induction ns arbitrary: v m0 q0)
    case Nil
    then show ?case by simp
  next
    case (Cons n ns)
    obtain v1 m1 q1 where s: "visitNeighbor grid k (v, m0, q0) n = (v1, m1, q1)"
      by (cases "visitNeighbor grid k (v, m0, q0) n")
    have step: "2 * card (allCellIds - v1) + length q1
                  \<le> 2 * card (allCellIds - v) + length q0"
    proof (cases "truthy (letter (grid ! fst n ! snd n)) \<and> mkCellId (fst n) (snd n) \<notin> v")
      case True
      then have eq: "v1 = insert (mkCellId (fst n) (snd n)) v" "q1 = q0 @ [n]"
        using s by (auto simp: visitNeighbor_def Let_def)
      have "mkCellId (fst n) (snd n) \<in> allCellIds - v"
        using True Cons.prems(1) by simp
      then have "card (allCellIds - v1) < card (allCellIds - v)"
        unfolding eq using fin
        by (metis Diff_insert card_Diff1_less finite_Diff)
      then show ?thesis unfolding eq by simp
    next
      case False
      then have "v1 = v" "q1 = q0"
        using s by (auto simp: visitNeighbor_def Let_def)
      then show ?thesis by simp
    qed
    have "foldl (visitNeighbor grid k) (v1, m1, q1) ns = (v', m', q')"
      using Cons.prems(2) s by simp
    then have "2 * card (allCellIds - v') + length q'
                 \<le> 2 * card (allCellIds - v1) + length q1"
      using Cons.prems(1) by (intro Cons.IH) simp_all
    then show ?case using step by linarith
  qed
  obtain visited' m' q' where f:
    "foldl (visitNeighbor grid k) (visited, m, q) (getNeighbors (fst cur) (snd cur))
       = (visited', m', q')"
    by (cases "foldl (visitNeighbor grid k) (visited, m, q)
                 (getNeighbors (fst cur) (snd cur))")
  have "2 * card (allCellIds - visited') + length q'
          \<le> 2 * card (allCellIds - visited) + length q"
    using inBounds f by (intro bound [of "getNeighbors (fst cur) (snd cur)"]) blast+
  moreover have "x = visited'" "ya = q'"
    using 2 f by (metis prod.inject)+
  ultimately show ?case by simp
qed

definition clusterStep ::
  "Grid \<Rightarrow> string set \<times> (string \<rightharpoonup> nat) \<times> nat \<Rightarrow> nat \<times> nat
     \<Rightarrow> string set \<times> (string \<rightharpoonup> nat) \<times> nat" where
  "clusterStep grid st rc =
     (case st of (visited, cellToCluster, nextClusterId) \<Rightarrow>
        (let cid = mkCellId (fst rc) (snd rc) in
         if truthy (letter (grid ! fst rc ! snd rc)) \<and> cid \<notin> visited
         then (case floodFill grid nextClusterId (insert cid visited)
                      (cellToCluster(cid \<mapsto> nextClusterId)) [rc] of
                 (visited', cellToCluster') \<Rightarrow> (visited', cellToCluster', nextClusterId + 1))
         else (visited, cellToCluster, nextClusterId)))"

definition identifyClusters :: "Grid \<Rightarrow> string \<Rightarrow> string set \<times> (string \<rightharpoonup> nat) \<times> nat" where
  "identifyClusters grid placementMode =
     (if placementMode = ''GO'' then foldl (clusterStep grid) ({}, Map.empty, 1) coords
      else ({}, Map.empty, 1))"

text \<open>\<open>getClusterId\<close>: \<open>cellToCluster.get(cellIds[0]) || 0\<close> outside ACROSTIC mode.\<close>

definition getClusterId :: "string \<Rightarrow> (string \<rightharpoonup> nat) \<Rightarrow> string list \<Rightarrow> nat" where
  "getClusterId placementMode cellToCluster ids =
     (if placementMode = ''ACROSTIC'' then 1
      else (case ids of
              [] \<Rightarrow> 0
            | first # _ \<Rightarrow> (case cellToCluster first of Some k \<Rightarrow> k | None \<Rightarrow> 0)))"

text \<open>
  \<open>scanLine\<close>. Its local variables, and the four collections of \<open>analyzeBoardLogic\<close>
  it writes to (\<open>dataWords\<close> holds pairs of a word and its cluster).
\<close>

record LineVars =
  currentWord :: string
  currentScore :: int
  currentMaxTurn :: nat
  currentOps :: "(Operator \<times> nat \<times> string) list"
  lineCellIds :: "string list"

record Analysis =
  anRawOps :: "RawOp list"
  anDataWords :: "(string \<times> nat) list"
  anAllValidWords :: "WordMetadata list"
  anVisitedWords :: "string list"

definition emptyVars :: LineVars where
  "emptyVars = \<lparr>currentWord = [], currentScore = 0, currentMaxTurn = 0, currentOps = [],
                lineCellIds = []\<rparr>"

definition emptyAnalysis :: Analysis where
  "emptyAnalysis = \<lparr>anRawOps = [], anDataWords = [], anAllValidWords = [],
                    anVisitedWords = []\<rparr>"

fun joinComma :: "string list \<Rightarrow> string" where
  "joinComma [] = []"
| "joinComma [x] = x"
| "joinComma (x # y # rest) = x @ '','' @ joinComma (y # rest)"

text \<open>
  The block run for a word of more than one letter (it stands twice in the source):
  with no dictionary every word is valid.
\<close>

definition emitWord ::
  "string set option \<Rightarrow> (string list \<Rightarrow> nat) \<Rightarrow> LineVars \<Rightarrow> Analysis \<Rightarrow> Analysis" where
  "emitWord dictionary clusterOf v a =
     (let isValid = (case dictionary of Some dict \<Rightarrow> currentWord v \<in> dict | None \<Rightarrow> True) in
      if isValid then
        (let uniqueKey = joinComma (lineCellIds v) in
         if uniqueKey \<notin> set (anVisitedWords a) then
           (let cId = clusterOf (lineCellIds v);
                a1 = a\<lparr>anVisitedWords := anVisitedWords a @ [uniqueKey],
                        anAllValidWords := anAllValidWords a @
                          [\<lparr>wmWord = currentWord v, wmScore = currentScore v,
                            wmTurn = currentMaxTurn v, wmCellIds = lineCellIds v,
                            wmClusterId = cId\<rparr>]\<rparr>
            in if length (currentOps v) = 0
               then a1\<lparr>anDataWords := anDataWords a1 @ [(currentWord v, cId)]\<rparr>
               else a1\<lparr>anRawOps := anRawOps a1 @
                         map (\<lambda>(k, t, i).
                                \<lparr>op = k, turn = t, lastModifiedTurn = currentMaxTurn v,
                                 word = currentWord v, opId = i,
                                 wordScore = currentScore v, cellIds = lineCellIds v,
                                 clusterId = cId\<rparr>)
                           (currentOps v)\<rparr>)
         else a)
      else a)"

definition addCell :: "LineVars \<Rightarrow> CellData \<Rightarrow> LineVars" where
  "addCell v cell =
     \<lparr>currentWord = currentWord v @ the (letter cell),
      currentScore = currentScore v
         + (if isBlank cell then 0 else letterValue (the (letter cell))),
      currentMaxTurn = max (currentMaxTurn v)
         (case turnPlaced cell of Some t \<Rightarrow> t | None \<Rightarrow> 0),
      currentOps =
         (if operator cell \<noteq> None \<and> operator cell \<noteq> Some START
          then currentOps v @ [(the (operator cell),
                                (case turnPlaced cell of Some t \<Rightarrow> t | None \<Rightarrow> 0),
                                cellId cell)]
          else currentOps v),
      lineCellIds = lineCellIds v @ [cellId cell]\<rparr>"

fun scanLineFrom ::
  "string set option \<Rightarrow> (string list \<Rightarrow> nat) \<Rightarrow> LineVars \<Rightarrow> Analysis \<Rightarrow> CellData list
     \<Rightarrow> Analysis" where
  "scanLineFrom dictionary clusterOf v a [] =
     (if length (currentWord v) > 1 then emitWord dictionary clusterOf v a else a)"
| "scanLineFrom dictionary clusterOf v a (cell # cells) =
     (if truthy (letter cell)
      then scanLineFrom dictionary clusterOf (addCell v cell) a cells
      else scanLineFrom dictionary clusterOf emptyVars
             (if length (currentWord v) > 1 then emitWord dictionary clusterOf v a else a)
             cells)"

definition scanLine ::
  "string set option \<Rightarrow> (string list \<Rightarrow> nat) \<Rightarrow> Analysis \<Rightarrow> CellData list \<Rightarrow> Analysis" where
  "scanLine dictionary clusterOf a cells = scanLineFrom dictionary clusterOf emptyVars a cells"


section \<open>Logic chains: assembly and cascade (analyzeBoardLogic, calculateChainScore)\<close>

text \<open>
  The body of the loop over clusters, after the cluster's entries are selected:
  \<open>clusterOps.sort((a, b) => a.turn - b.turn)\<close> is a stable sort on the turn, then the
  five rules push their entries in order.
\<close>

definition assembleChain :: "'x CompiledOp_scheme list \<Rightarrow> 'x CompiledOp_scheme list" where
  "assembleChain unsortedOps =
     (let clusterOps = sort_key turn unsortedOps;
          firstIf = find (\<lambda>x. op x = IF) clusterOps;
          compiledOps1 = (case firstIf of Some x \<Rightarrow> [x] | None \<Rightarrow> []);
          allOrs = sort_key turn (filter (\<lambda>x. op x = OR) clusterOps);
          compiledOps2 = compiledOps1 @ allOrs;
          firstThen = find (\<lambda>x. op x = THEN) clusterOps;
          compiledOps3 = compiledOps2 @ (case firstThen of Some x \<Rightarrow> [x] | None \<Rightarrow> []);
          additions = sort_key turn (filter (\<lambda>x. op x = AND \<or> op x = PLUS) clusterOps);
          compiledOps4 = compiledOps3 @ additions;
          modifiers =
            sort_key turn (filter (\<lambda>x. op x \<in> set [MINUS, MULT, OVER]) clusterOps)
      in compiledOps4 @ modifiers)"

text \<open>
  The loop \<open>for (i = 1; i <= maxCluster; i++)\<close>: a cluster with neither operator
  entries nor data words is skipped.
\<close>

definition compileCluster ::
  "RawOp list \<Rightarrow> (string \<times> nat) list \<Rightarrow> nat \<Rightarrow> unit RawOp_ext CompiledChain list" where
  "compileCluster rawOps dataWordsAll i =
     (let clusterOps = filter (\<lambda>x. clusterId x = i) rawOps;
          clusterData = map fst (filter (\<lambda>x. snd x = i) dataWordsAll)
      in if length clusterOps = 0 \<and> length clusterData = 0 then []
         else [\<lparr>chainId = i, compiledOps = assembleChain clusterOps,
                dataWords = clusterData\<rparr>])"

definition compileChains ::
  "RawOp list \<Rightarrow> (string \<times> nat) list \<Rightarrow> nat \<Rightarrow> unit RawOp_ext CompiledChain list" where
  "compileChains rawOps dataWordsAll maxCluster =
     concat (map (compileCluster rawOps dataWordsAll) [1 ..< Suc maxCluster])"

text \<open>
  \<open>calculateChainScore\<close>. Triggers and actions of a chain, then the loop over the
  actions with its two variables \<open>cascadeOutcome\<close> and \<open>targetEstablished\<close>. Scores are
  integers (\<open>Math.floor(a / b)\<close> is \<open>div\<close> on \<open>int\<close>, which rounds down).
\<close>

definition triggersOf :: "'x CompiledOp_scheme list \<Rightarrow> 'x CompiledOp_scheme list" where
  "triggersOf ops = filter (\<lambda>x. op x = IF \<or> op x = OR) ops"

definition actionsOf :: "'x CompiledOp_scheme list \<Rightarrow> 'x CompiledOp_scheme list" where
  "actionsOf ops = filter (\<lambda>x. op x \<noteq> IF \<and> op x \<noteq> OR) ops"

definition actionStep :: "int \<times> bool \<Rightarrow> 'x CompiledOp_scheme \<Rightarrow> int \<times> bool" where
  "actionStep st action =
     (case st of (cascadeOutcome, targetEstablished) \<Rightarrow>
        if op action = THEN then (wordScore action, True)
        else if targetEstablished then
          (case op action of
             PLUS \<Rightarrow> (cascadeOutcome + wordScore action, targetEstablished)
           | AND \<Rightarrow> (cascadeOutcome + wordScore action, targetEstablished)
           | MINUS \<Rightarrow> (cascadeOutcome - wordScore action, targetEstablished)
           | MULT \<Rightarrow> (cascadeOutcome * wordScore action, targetEstablished)
           | OVER \<Rightarrow>
               (if wordScore action \<noteq> 0
                then (cascadeOutcome div wordScore action, targetEstablished)
                else (cascadeOutcome, targetEstablished))
           | _ \<Rightarrow> (cascadeOutcome, targetEstablished))
        else (cascadeOutcome, targetEstablished))"

text \<open>
  The cascade outcome of a chain, or \<open>None\<close> where the loop body leaves by
  \<open>continue\<close>: no trigger, no action, or no THEN among the actions.
\<close>

definition cascadeOutcomeOf :: "'x CompiledChain \<Rightarrow> int option" where
  "cascadeOutcomeOf chain =
     (let triggers = triggersOf (compiledOps chain);
          actions = actionsOf (compiledOps chain)
      in if length triggers = 0 \<or> length actions = 0 then None
         else
           (case foldl actionStep (0, False) actions of
              (cascadeOutcome, targetEstablished) \<Rightarrow>
                if \<not> targetEstablished then None else Some cascadeOutcome))"

text \<open>\<open>activeCellIds\<close> is a \<open>Set\<close>: \<open>add\<close> keeps the first insertion.\<close>

definition addId :: "string list \<Rightarrow> string \<Rightarrow> string list" where
  "addId ids i = (if i \<in> set ids then ids else ids @ [i])"

record ChainScore =
  score :: int
  activeCellIds :: "string list"

text \<open>The loops over the newly formed words of the cluster and over the triggers.\<close>

definition triggerStep ::
  "int \<Rightarrow> 'x CompiledOp_scheme list \<Rightarrow> WordMetadata \<Rightarrow> int \<times> string list
     \<Rightarrow> 'x CompiledOp_scheme \<Rightarrow> int \<times> string list" where
  "triggerStep cascadeOutcome ops newWord st trigger =
     (case st of (totalLogicScore, active) \<Rightarrow>
        if wmWord newWord = word trigger
        then (totalLogicScore + cascadeOutcome,
              foldl (\<lambda>a x. foldl addId a (cellIds x))
                (foldl addId active (wmCellIds newWord)) ops)
        else (totalLogicScore, active))"

definition chainStep ::
  "WordMetadata list \<Rightarrow> nat \<Rightarrow> int \<times> string list \<Rightarrow> 'x CompiledChain
     \<Rightarrow> int \<times> string list" where
  "chainStep allValidWords currentTurn st chain =
     (case cascadeOutcomeOf chain of
        None \<Rightarrow> st
      | Some cascadeOutcome \<Rightarrow>
          (let triggers = triggersOf (compiledOps chain);
               newlyFormedWords =
                 filter (\<lambda>w. wmTurn w = currentTurn \<and> wmClusterId w = chainId chain)
                   allValidWords
           in foldl (\<lambda>st1 newWord.
                  foldl (triggerStep cascadeOutcome (compiledOps chain) newWord) st1 triggers)
                st newlyFormedWords))"

definition calculateChainScore ::
  "'x CompiledChain list \<Rightarrow> WordMetadata list \<Rightarrow> nat \<Rightarrow> ChainScore" where
  "calculateChainScore chainList allValidWords currentTurn =
     (case foldl (chainStep allValidWords currentTurn) (0, []) chainList of
        (totalLogicScore, active) \<Rightarrow>
          \<lparr>score = totalLogicScore, activeCellIds = active\<rparr>)"

section \<open>The specification's reading of chain assembly and of the cascade\<close>

text \<open>
  The fold of the specification, one case per operator kind, written from its words:
  THEN sets the outcome and marks it established; PLUS and AND add, MINUS subtracts,
  MULT multiplies and OVER divides (rounding down, skipped for a word score of 0), each
  only once established. Entries of any other kind leave the outcome as it is.
\<close>

fun specCascade :: "int \<Rightarrow> bool \<Rightarrow> 'x CompiledOp_scheme list \<Rightarrow> int" where
  "specCascade outcome established [] = outcome"
| "specCascade outcome established (a # rest) =
     (case op a of
        THEN \<Rightarrow> specCascade (wordScore a) True rest
      | PLUS \<Rightarrow>
          specCascade (if established then outcome + wordScore a else outcome) established rest
      | AND \<Rightarrow>
          specCascade (if established then outcome + wordScore a else outcome) established rest
      | MINUS \<Rightarrow>
          specCascade (if established then outcome - wordScore a else outcome) established rest
      | MULT \<Rightarrow>
          specCascade (if established then outcome * wordScore a else outcome) established rest
      | OVER \<Rightarrow>
          specCascade
            (if established \<and> wordScore a \<noteq> 0 then outcome div wordScore a else outcome)
            established rest
      | _ \<Rightarrow> specCascade outcome established rest)"

text \<open>
  The five buckets of the specification, each taken from the cluster's entries as they
  are given (in any order): the entries of a kind sorted by turn, of which rules 1 and
  3 keep the first.
\<close>

definition ofKinds :: "Operator list \<Rightarrow> 'x CompiledOp_scheme list \<Rightarrow> 'x CompiledOp_scheme list" where
  "ofKinds kinds ops = sort_key turn (filter (\<lambda>x. op x \<in> set kinds) ops)"

definition specChain :: "'x CompiledOp_scheme list \<Rightarrow> 'x CompiledOp_scheme list" where
  "specChain ops =
     take 1 (ofKinds [IF] ops) @ ofKinds [OR] ops @ take 1 (ofKinds [THEN] ops)
       @ ofKinds [AND, PLUS] ops @ ofKinds [MINUS, MULT, OVER] ops"

text \<open>Entries for the examples: a kind, a turn, a word and its score.\<close>

definition entry :: "Operator \<Rightarrow> nat \<Rightarrow> string \<Rightarrow> int \<Rightarrow> CompiledOp" where
  "entry k t w s =
     \<lparr>op = k, turn = t, lastModifiedTurn = t, word = w, opId = [], wordScore = s,
      cellIds = []\<rparr>"

text \<open>
  Triggers and actions as the specification names them, kind by kind: an entry of kind
  IF or OR is a trigger, an entry of any other kind is an action.
\<close>

fun isTriggerKind :: "Operator \<Rightarrow> bool" where
  "isTriggerKind IF = True"
| "isTriggerKind OR = True"
| "isTriggerKind THEN = False"
| "isTriggerKind AND = False"
| "isTriggerKind PLUS = False"
| "isTriggerKind MINUS = False"
| "isTriggerKind MULT = False"
| "isTriggerKind OVER = False"
| "isTriggerKind START = False"

definition specTriggers :: "'x CompiledOp_scheme list \<Rightarrow> 'x CompiledOp_scheme list" where
  "specTriggers ops = filter (\<lambda>x. isTriggerKind (op x)) ops"

definition specActions :: "'x CompiledOp_scheme list \<Rightarrow> 'x CompiledOp_scheme list" where
  "specActions ops = filter (\<lambda>x. \<not> isTriggerKind (op x)) ops"

text \<open>
  The cascade outcome of the specification: the fold of the chain's actions; a chain
  with no trigger or with no THEN entry (so also a chain with no action) contributes 0.
\<close>

definition specOutcome :: "'x CompiledChain \<Rightarrow> int" where
  "specOutcome chain =
     (if specTriggers (compiledOps chain) \<noteq> []
         \<and> list_ex (\<lambda>x. op x = THEN) (specActions (compiledOps chain))
      then specCascade 0 False (specActions (compiledOps chain)) else 0)"

text \<open>
  The replays of the specification: the pairs of a word formed in the current turn in
  the chain's cluster and a trigger of the chain with the same text.
\<close>

definition replays ::
  "'x CompiledChain \<Rightarrow> WordMetadata list \<Rightarrow> nat \<Rightarrow> (WordMetadata \<times> 'x CompiledOp_scheme) list" where
  "replays chain allValidWords currentTurn =
     filter (\<lambda>(w, t). wmWord w = word t)
       (List.product
          (filter (\<lambda>w. wmTurn w = currentTurn \<and> wmClusterId w = chainId chain) allValidWords)
          (specTriggers (compiledOps chain)))"

text \<open>
  The chain of the specification's example: the trigger word CAT, and the actions THEN
  (word DOG, 5 points), PLUS (HORSE, 10) and MULT (AA, 2), with cascade outcome 30. A
  word record with a text, the turn it was formed in and its cluster.
\<close>

definition catChain :: "unit CompiledChain" where
  "catChain =
     \<lparr>chainId = 1,
      compiledOps = [entry IF 1 ''CAT'' 5, entry THEN 2 ''DOG'' 5,
                     entry PLUS 3 ''HORSE'' 10, entry MULT 4 ''AA'' 2],
      dataWords = []\<rparr>"

definition formed :: "string \<Rightarrow> nat \<Rightarrow> nat \<Rightarrow> WordMetadata" where
  "formed w t k = \<lparr>wmWord = w, wmScore = 0, wmTurn = t, wmCellIds = [], wmClusterId = k\<rparr>"

text \<open>
  The score update of a committed turn (\<open>commitPlayerTurn\<close>:
  \<open>playerScore + baseScore + logicBonus.score\<close>; \<open>executeMove\<close> adds the same two terms
  to the opponent's score).
\<close>

definition newScore :: "int \<Rightarrow> int \<Rightarrow> ChainScore \<Rightarrow> int" where
  "newScore moverScore baseScore logicBonus = moverScore + baseScore + score logicBonus"


section \<open>Logic chains: analyzeBoardLogic\<close>

record AnalysisResult =
  resChains :: "unit RawOp_ext CompiledChain list"
  resAllValidWords :: "WordMetadata list"

definition analyzeBoardLogic :: "Grid \<Rightarrow> string set option \<Rightarrow> string \<Rightarrow> AnalysisResult" where
  "analyzeBoardLogic grid dictionary placementMode =
     (case identifyClusters grid placementMode of
        (visited, cellToCluster, nextClusterId) \<Rightarrow>
          (let clusterOf = getClusterId placementMode cellToCluster;
               a1 = foldl (scanLine dictionary clusterOf) emptyAnalysis grid;
               a2 = foldl (\<lambda>a c. scanLine dictionary clusterOf a (columnOf grid c)) a1
                      [0 ..< BOARD_SIZE];
               maxCluster = (if placementMode = ''ACROSTIC'' then 1 else nextClusterId - 1)
           in \<lparr>resChains = compileChains (anRawOps a2) (anDataWords a2) maxCluster,
               resAllValidWords = anAllValidWords a2\<rparr>))"

text \<open>
  An example board: the letters QZ on the IF cell (4,4) and its right neighbour, and
  XJZ down column 5 from the THEN cell (2,5); neither is a word of any dictionary.
\<close>

definition nonsenseBoard :: Grid where
  "nonsenseBoard =
     putTile 4 4 ''Q'' True (Some 1) (putTile 4 5 ''Z'' True (Some 1)
       (putTile 3 5 ''J'' True (Some 1) (putTile 2 5 ''X'' True (Some 1) generateBoard)))"

text \<open>
  A maximal lettered run of a line: the cells \<open>run\<close> between \<open>pre\<close> and \<open>post\<close> are all
  lettered, and the cells next to the run on either side (if any) are not.
\<close>

definition maximalRun ::
  "CellData list \<Rightarrow> CellData list \<Rightarrow> CellData list \<Rightarrow> CellData list \<Rightarrow> bool" where
  "maximalRun pre run post cells =
     (cells = pre @ run @ post
      \<and> list_all (\<lambda>cell. truthy (letter cell)) run
      \<and> (pre = [] \<or> \<not> truthy (letter (last pre)))
      \<and> (post = [] \<or> \<not> truthy (letter (hd post))))"

definition runText :: "CellData list \<Rightarrow> string" where
  "runText run = concat (map (\<lambda>cell. the (letter cell)) run)"

text \<open>The lines that \<open>analyzeBoardLogic\<close> scans: the rows as stored and the columns.\<close>

definition scannedLines :: "Grid \<Rightarrow> CellData list list" where
  "scannedLines grid = grid @ map (columnOf grid) [0 ..< BOARD_SIZE]"

text \<open>Every visited key belongs to a word record, and conversely.\<close>

definition recorded :: "Analysis \<Rightarrow> bool" where
  "recorded a =
     (set (anVisitedWords a) = (\<lambda>w. joinComma (wmCellIds w)) ` set (anAllValidWords a))"


section \<open>Move search: placement evaluation (evaluatePlacement)\<close>















text \<open>
  Taking a tile for a character from a hand: \<open>indexOf(char)\<close>, else \<open>indexOf('*')\<close>, and
  the \<open>splice\<close> of the index found. The flag tells whether a wildcard was used.
\<close>

fun indexOf :: "string list \<Rightarrow> string \<Rightarrow> nat option" where
  "indexOf [] x = None"
| "indexOf (y # ys) x =
     (if y = x then Some 0 else (case indexOf ys x of None \<Rightarrow> None | Some i \<Rightarrow> Some (Suc i)))"

definition spliceOut :: "nat \<Rightarrow> string list \<Rightarrow> string list" where
  "spliceOut i xs = take i xs @ drop (Suc i) xs"

definition takeTile :: "string list \<Rightarrow> string \<Rightarrow> (string list \<times> bool) option" where
  "takeTile tiles ch =
     (case indexOf tiles ch of
        Some idx \<Rightarrow> Some (spliceOut idx tiles, False)
      | None \<Rightarrow>
          (case indexOf tiles ''*'' of
             Some bIdx \<Rightarrow> Some (spliceOut bIdx tiles, True)
           | None \<Rightarrow> None))"

definition posOf :: "string \<Rightarrow> nat \<Rightarrow> nat \<Rightarrow> nat \<Rightarrow> nat \<times> nat" where
  "posOf dir startR startC k =
     (if dir = ''V'' then startR + k else startR, if dir = ''H'' then startC + k else startC)"

definition placedCell :: "CellData \<Rightarrow> string \<Rightarrow> bool \<Rightarrow> nat \<Rightarrow> CellData" where
  "placedCell cell ch blank turnNo =
     cell\<lparr>letter := Some ch, isLocked := True, isBlank := blank, turnPlaced := Some turnNo\<rparr>"



text \<open>
  \<open>evaluatePlacement\<close>: the score of the candidate, or \<open>-1\<close>, and the store it leaves.
\<close>

definition scoreOf :: "Grid \<Rightarrow> (nat \<times> nat) list \<Rightarrow> string set option \<Rightarrow> string \<Rightarrow> nat \<Rightarrow> int" where
  "scoreOf nextGrid coordsPlaced dictionary placementMode turnNo =
     (let baseScore = calculateScrabbleScore nextGrid coordsPlaced;
          analysis = analyzeBoardLogic nextGrid dictionary placementMode;
          logicBonus = calculateChainScore (resChains analysis) (resAllValidWords analysis)
                         turnNo
      in baseScore + score logicBonus)"


section \<open>The overlay on values\<close>

text \<open>
  The same loop on a board and a hand given as values: what the scratch copies hold,
  without the store.
\<close>

record PureOverlay =
  pvGrid :: Grid
  pvHand :: "string list"
  pvPlaced :: nat
  pvCoords :: "(nat \<times> nat) list"

fun overlayPure ::
  "nat \<Rightarrow> string \<Rightarrow> nat \<Rightarrow> nat \<Rightarrow> nat \<Rightarrow> string \<Rightarrow> PureOverlay \<Rightarrow> bool \<times> PureOverlay" where
  "overlayPure turnNo dir startR startC k [] pv = (True, pv)"
| "overlayPure turnNo dir startR startC k (ch # chs) pv =
     (case posOf dir startR startC k of (r, c) \<Rightarrow>
        (let cell = pvGrid pv ! r ! c
         in if truthy (letter cell) then
              (if letter cell \<noteq> Some [ch] then (False, pv)
               else overlayPure turnNo dir startR startC (k + 1) chs pv)
            else
              (case takeTile (pvHand pv) [ch] of
                 None \<Rightarrow> (False, pv)
               | Some (tiles, blank) \<Rightarrow>
                   overlayPure turnNo dir startR startC (k + 1) chs
                     \<lparr>pvGrid = (pvGrid pv)
                          [r := (pvGrid pv ! r)[c := placedCell cell [ch] blank turnNo]],
                      pvHand = tiles,
                      pvPlaced = pvPlaced pv + 1,
                      pvCoords = pvCoords pv @ [(r, c)]\<rparr>)))"

definition evaluatePlacementPure ::
  "Grid \<Rightarrow> string list \<Rightarrow> string \<Rightarrow> string \<Rightarrow> string set option \<Rightarrow> nat
     \<Rightarrow> string \<Rightarrow> nat \<Rightarrow> nat \<Rightarrow> nat \<Rightarrow> string \<Rightarrow> int" where
  "evaluatePlacementPure board tiles gameMode placementMode dictionary turnNo
       wordStr pivotIdx ar ac dir =
     (let startR = (if dir = ''V'' then int ar - int pivotIdx else int ar);
          startC = (if dir = ''H'' then int ac - int pivotIdx else int ac)
      in if startR < 0 \<or> startC < 0 then - 1
         else if dir = ''H'' \<and> startC + int (length wordStr) > int BOARD_SIZE then - 1
         else if dir = ''V'' \<and> startR + int (length wordStr) > int BOARD_SIZE then - 1
         else
           (case overlayPure turnNo dir (nat startR) (nat startC) 0 wordStr
                   \<lparr>pvGrid = board, pvHand = tiles, pvPlaced = 0, pvCoords = []\<rparr> of
              (ok, pv) \<Rightarrow>
                if \<not> ok then - 1
                else if pvPlaced pv = 0 then - 1
                else if validatePlacementRules (pvGrid pv) gameMode placementMode dictionary
                then scoreOf (pvGrid pv) (pvCoords pv) dictionary placementMode turnNo
                else - 1))"



definition onBoard :: "'a list list \<Rightarrow> nat \<times> nat \<Rightarrow> bool" where
  "onBoard m p = (case p of (r, c) \<Rightarrow> r < length m \<and> c < length (m ! r))"

text \<open>
  Names for the statement of the rejection cases: the start coordinate of a candidate,
  the test that the word runs off the board, the coordinate under the \<open>k\<close>-th character
  of the word, and the overlay of the word on a board and a hand.
\<close>

definition startRow :: "string \<Rightarrow> nat \<Rightarrow> nat \<Rightarrow> int" where
  "startRow dir ar pivotIdx = (if dir = ''V'' then int ar - int pivotIdx else int ar)"

definition startCol :: "string \<Rightarrow> nat \<Rightarrow> nat \<Rightarrow> int" where
  "startCol dir ac pivotIdx = (if dir = ''H'' then int ac - int pivotIdx else int ac)"

definition offBoard :: "string \<Rightarrow> nat \<Rightarrow> nat \<Rightarrow> nat \<Rightarrow> nat \<Rightarrow> bool" where
  "offBoard dir ar ac pivotIdx n =
     (startRow dir ar pivotIdx < 0 \<or> startCol dir ac pivotIdx < 0
      \<or> (dir = ''H'' \<and> startCol dir ac pivotIdx + int n > int BOARD_SIZE)
      \<or> (dir = ''V'' \<and> startRow dir ar pivotIdx + int n > int BOARD_SIZE))"



definition overlayOf ::
  "Grid \<Rightarrow> string list \<Rightarrow> nat \<Rightarrow> string \<Rightarrow> nat \<Rightarrow> nat \<Rightarrow> nat \<Rightarrow> string \<Rightarrow> bool \<times> PureOverlay" where
  "overlayOf board tiles turnNo wordStr pivotIdx ar ac dir =
     overlayPure turnNo dir (nat (startRow dir ar pivotIdx)) (nat (startCol dir ac pivotIdx))
       0 wordStr \<lparr>pvGrid = board, pvHand = tiles, pvPlaced = 0, pvCoords = []\<rparr>"





section \<open>Committing a turn (commitPlayerTurn)\<close>

text \<open>
  The part of the session state that \<open>commitPlayerTurn\<close> reads and sets, as values. (The
  selection, the highlight of the cascade, the sound and the message to the peer are
  left out: they do not feed back into the rules.)
\<close>

record GameState =
  gGrid :: Grid
  gTurnMoves :: "(nat \<times> nat \<times> string) list"
  gPlayerHand :: "string list"
  gCpuHand :: "string list"
  gTileBag :: "string list"
  gGameMode :: string
  gPlacementMode :: string
  gDictionary :: "string set option"
  gTurnCount :: nat
  gPlayerScore :: int
  gCpuScore :: int
  gIsCpuTurn :: bool

definition lockMoves :: "nat \<Rightarrow> (nat \<times> nat \<times> string) list \<Rightarrow> Grid \<Rightarrow> Grid" where
  "lockMoves turnNo moves resolvedGrid =
     foldl (\<lambda>newGrid (r, c, l).
              newGrid[r := (newGrid ! r)
                 [c := (newGrid ! r ! c)\<lparr>isLocked := True, turnPlaced := Some turnNo\<rparr>]])
       resolvedGrid moves"

definition commitPlayerTurn :: "GameState \<Rightarrow> GameState" where
  "commitPlayerTurn g =
     (if length (gTurnMoves g) = 0 then g
      else
        (case resolveGridWithBlanks (gGrid g) (gGameMode g) (gPlacementMode g)
                (gDictionary g) of
           None \<Rightarrow> g
         | Some resolvedGrid \<Rightarrow>
             (let baseScore = calculateScrabbleScore resolvedGrid
                                (map (\<lambda>(r, c, l). (r, c)) (gTurnMoves g));
                  newGrid = lockMoves (gTurnCount g) (gTurnMoves g) resolvedGrid;
                  analysis = analyzeBoardLogic newGrid (gDictionary g) (gPlacementMode g);
                  logicBonus = calculateChainScore (resChains analysis)
                                 (resAllValidWords analysis) (gTurnCount g);
                  drawn = drawTiles (gPlayerHand g) (gTileBag g)
              in g\<lparr>gPlayerScore := newScore (gPlayerScore g) baseScore logicBonus,
                   gGrid := newGrid,
                   gTurnCount := gTurnCount g + 1,
                   gPlayerHand := hand drawn,
                   gTileBag := bag drawn,
                   gTurnMoves := [],
                   gIsCpuTurn := True\<rparr>)))"


text \<open>
  An example game. After the first turn the board holds, locked, the word CAT in row 4
  with its T on the IF cell (4,4), and the word ACT down column 2 with its T on the THEN
  cell (5,2): a chain with the trigger CAT and the cascade outcome 5. The mover has 15
  points and has put the tiles \<open>moves\<close> on the board.
\<close>

definition catBoard :: Grid where
  "catBoard =
     putTile 4 2 ''C'' True (Some 1) (putTile 4 3 ''A'' True (Some 1)
       (putTile 4 4 ''T'' True (Some 1) (putTile 3 2 ''A'' True (Some 1)
         (putTile 5 2 ''T'' True (Some 1) generateBoard))))"

definition catGame :: "string \<Rightarrow> (nat \<times> nat \<times> string) list \<Rightarrow> GameState" where
  "catGame placementMode moves =
     \<lparr>gGrid = foldl (\<lambda>grid (r, c, l). putTile r c l False None grid) catBoard moves,
      gTurnMoves = moves,
      gPlayerHand = [''E'', ''R'', ''S'', ''O'', ''N''],
      gCpuHand = [''I'', ''L'', ''D'', ''U'', ''G'', ''E'', ''A''],
      gTileBag = [''B'', ''E'', ''M'', ''P''],
      gGameMode = ''DYNAMIC'',
      gPlacementMode = placementMode,
      gDictionary = Some {''CAT'', ''ACT''},
      gTurnCount = 3,
      gPlayerScore = 15,
      gCpuScore = 0,
      gIsCpuTurn = False\<rparr>"

section \<open>Tile system: properties\<close>

lemma expandDistribution_foldl:
  "foldl (\<lambda>acc (l, n). acc @ replicate n l) acc0 table
     = acc0 @ concat (map (\<lambda>(l, n). replicate n l) table)"
  by (induction table arbitrary: acc0) (auto simp: case_prod_beta)

lemma expandDistribution_concat:
  "expandDistribution table = concat (map (\<lambda>(l, n). replicate n l) table)"
  by (simp add: expandDistribution_def expandDistribution_foldl)

lemma length_expandDistribution:
  "length (expandDistribution table) = sum_list (map snd table)"
  by (induction table) (auto simp: expandDistribution_concat)

lemma mset_swapAt:
  assumes "i < length xs" "j < length xs"
  shows "mset (swapAt i j xs) = mset xs"
  unfolding swapAt_def using assms by (simp add: mset_swap)

lemma length_swapAt: "length (swapAt i j xs) = length xs"
  by (simp add: swapAt_def)

lemma mset_fisherYates:
  assumes "\<forall>i. js i \<le> i" "k < length xs"
  shows "mset (fisherYates js k xs) = mset xs"
  using assms
proof (induction k arbitrary: xs)
  case 0
  then show ?case by simp
next
  case (Suc k)
  have j: "js (Suc k) < length xs"
    using Suc.prems by (meson le_less_trans)
  have "mset (fisherYates js k (swapAt (Suc k) (js (Suc k)) xs))
          = mset (swapAt (Suc k) (js (Suc k)) xs)"
    using Suc.prems by (intro Suc.IH) (simp_all add: length_swapAt)
  also have "\<dots> = mset xs"
    using Suc.prems j by (simp add: mset_swapAt)
  finally show ?case by simp
qed

lemma sum_LETTER_DISTRIBUTION: "sum_list (map snd LETTER_DISTRIBUTION) = 100"
  by (simp add: LETTER_DISTRIBUTION_def)

lemma count_expandDistribution:
  assumes "distinct (map fst table)"
  shows "count (mset (expandDistribution table)) l
           = (case map_of table l of None \<Rightarrow> 0 | Some n \<Rightarrow> n)"
  using assms
proof (induction table)
  case Nil
  then show ?case by (simp add: expandDistribution_concat)
next
  case (Cons e table)
  obtain k n where e: "e = (k, n)" by (cases e)
  have rest: "count (mset (expandDistribution table)) l
                = (case map_of table l of None \<Rightarrow> 0 | Some n \<Rightarrow> n)"
    using Cons by simp
  have split: "count (mset (expandDistribution (e # table))) l
                = (if l = k then n else 0) + count (mset (expandDistribution table)) l"
    by (simp add: expandDistribution_concat e)
  show ?case
  proof (cases "l = k")
    case True
    have "k \<notin> fst ` set table" using Cons.prems e by simp
    then have "map_of table k = None" by (simp add: map_of_eq_None_iff)
    then show ?thesis using split rest True e by simp
  next
    case False
    then show ?thesis using split rest e by simp
  qed
qed

lemma distinct_LETTER_DISTRIBUTION: "distinct (map fst LETTER_DISTRIBUTION)"
  by (simp add: LETTER_DISTRIBUTION_def)

text \<open>
  C6 (as amended). For every outcome of the random draws, \<open>generateTileBag\<close> returns a
  permutation of the table expanded in order: the same multiset, every letter with
  exactly its count of the distribution table (and no other tile), and as many tiles as
  the counts of the table sum to. That sum is 100 for the table of the source, not 101.
\<close>

theorem generateTileBag_permutation:
  assumes "\<forall>i. js i \<le> i"
  shows "mset (generateTileBag js) = mset (expandDistribution LETTER_DISTRIBUTION)
       \<and> count (mset (generateTileBag js)) l
           = (case map_of LETTER_DISTRIBUTION l of None \<Rightarrow> 0 | Some n \<Rightarrow> n)
       \<and> length (generateTileBag js) = sum_list (map snd LETTER_DISTRIBUTION)
       \<and> length (generateTileBag js) = 100"
proof -
  let ?tiles = "expandDistribution LETTER_DISTRIBUTION"
  have len: "length ?tiles = 100"
    by (simp add: length_expandDistribution sum_LETTER_DISTRIBUTION)
  have perm: "mset (generateTileBag js) = mset ?tiles"
    unfolding generateTileBag_def Let_def
    using assms len by (intro mset_fisherYates) simp_all
  have "length (generateTileBag js) = length ?tiles"
    using perm by (metis size_mset)
  then show ?thesis
    using perm len
    by (simp add: count_expandDistribution distinct_LETTER_DISTRIBUTION
        sum_LETTER_DISTRIBUTION)
qed

theorem generateTileBag_permutation_witness:
  "mset (generateTileBag (\<lambda>i. i div 2)) = mset (expandDistribution LETTER_DISTRIBUTION)
     \<and> count (mset (generateTileBag (\<lambda>i. i div 2))) ''E'' = 12
     \<and> length (generateTileBag (\<lambda>i. i div 2)) = 100"
proof -
  have h: "\<forall>i::nat. i div 2 \<le> i" by simp
  have m: "map_of LETTER_DISTRIBUTION ''E'' = Some 12"
    by (simp add: LETTER_DISTRIBUTION_def)
  note t = generateTileBag_permutation [OF h, of "''E''", unfolded m option.case]
  show ?thesis using t by blast
qed

theorem tile_total_counterexample:
  "length (expandDistribution LETTER_DISTRIBUTION) \<noteq> 101
     \<and> sum_list (map snd LETTER_DISTRIBUTION) \<noteq> 101"
  by (simp add: length_expandDistribution sum_LETTER_DISTRIBUTION)

text \<open>
  C5 (as amended). For every hand of at most 7 tiles and every bag, \<open>drawTiles\<close> returns
  a hand of \<open>min 7 (length hand + length bag)\<close> tiles. For every hand and bag, the tiles
  added to the hand are the front of the bag and the bag loses exactly those; and the
  call changes nothing when the bag is empty or the hand has 7 tiles or more.
\<close>

theorem drawTiles_fill:
  "(length currentHand \<le> 7 \<longrightarrow>
      length (hand (drawTiles currentHand tileBag))
        = min 7 (length currentHand + length tileBag))
   \<and> hand (drawTiles currentHand tileBag)
        = currentHand @ take (length (hand (drawTiles currentHand tileBag))
                                - length currentHand) tileBag
   \<and> bag (drawTiles currentHand tileBag)
        = drop (length (hand (drawTiles currentHand tileBag)) - length currentHand) tileBag
   \<and> length (bag (drawTiles currentHand tileBag))
        = length tileBag
            - (length (hand (drawTiles currentHand tileBag)) - length currentHand)
   \<and> (tileBag = [] \<or> 7 \<le> length currentHand \<longrightarrow>
        drawTiles currentHand tileBag = \<lparr>hand = currentHand, bag = tileBag\<rparr>)"
proof (cases "7 \<le> length currentHand \<or> tileBag = []")
  case True
  then have "drawTiles currentHand tileBag = \<lparr>hand = currentHand, bag = tileBag\<rparr>"
    by (auto simp: drawTiles_def Let_def)
  then show ?thesis using True by auto
next
  case False
  define n where "n = 7 - length currentHand"
  have n: "nat (7 - int (length currentHand)) = n" "0 < n"
    using False by (simp_all add: n_def)
  have r: "drawTiles currentHand tileBag
             = \<lparr>hand = currentHand @ take n tileBag, bag = drop n tileBag\<rparr>"
    using False n by (auto simp: drawTiles_def Let_def)
  have m: "min (length tileBag) n = length (take n tileBag)" by simp
  show ?thesis
    unfolding r using False n_def
    by (auto simp: min_def)
qed

theorem drawTiles_fill_witness:
  "length [''A'', ''B'', ''C'', ''D'', ''E''] \<le> (7::nat)
   \<and> hand (drawTiles [''A'', ''B'', ''C'', ''D'', ''E''] [''X'', ''Y'', ''Z''])
        = [''A'', ''B'', ''C'', ''D'', ''E'', ''X'', ''Y'']
   \<and> bag (drawTiles [''A'', ''B'', ''C'', ''D'', ''E''] [''X'', ''Y'', ''Z'']) = [''Z'']
   \<and> length (hand (drawTiles [''A'', ''B'', ''C'', ''D'', ''E''] [''X'', ''Y'', ''Z'']))
        = min 7 (5 + 3)
   \<and> drawTiles [''A'', ''B'', ''C'', ''D'', ''E''] [] 
        = \<lparr>hand = [''A'', ''B'', ''C'', ''D'', ''E''], bag = []\<rparr>"
  using drawTiles_fill [of "[''A'', ''B'', ''C'', ''D'', ''E'']" "[''X'', ''Y'', ''Z'']"]
    drawTiles_fill [of "[''A'', ''B'', ''C'', ''D'', ''E'']" "[]"]
  by (simp add: drawTiles_def)

theorem drawTiles_long_hand_counterexample:
  "length (hand (drawTiles [''A'', ''B'', ''C'', ''D'', ''E'', ''F'', ''G'', ''H''] [''Z'']))
     \<noteq> min 7 (length [''A'', ''B'', ''C'', ''D'', ''E'', ''F'', ''G'', ''H''] + length [''Z''])"
  by (simp add: drawTiles_def)

section \<open>Validation: properties\<close>

lemma set_coords: "set coords = {(r, c). r < BOARD_SIZE \<and> c < BOARD_SIZE}"
  by (auto simp: coords_def)

lemma hasLockedTiles_iff:
  assumes "wellFormed grid"
  shows "hasLockedTiles grid = (\<exists>(r, c)\<in>set coords. lockedLettered grid r c)"
proof
  assume "hasLockedTiles grid"
  then obtain cells cell where c: "cells \<in> set grid" "cell \<in> set cells"
      "isLocked cell" "truthy (letter cell)"
    by (auto simp: hasLockedTiles_def list_ex_iff)
  then obtain r where r: "r < length grid" "grid ! r = cells"
    by (auto simp: in_set_conv_nth)
  obtain k where k: "k < length cells" "cells ! k = cell"
    using c(2) by (auto simp: in_set_conv_nth)
  have "length cells = BOARD_SIZE" "length grid = BOARD_SIZE"
    using assms c(1) by (auto simp: wellFormed_def list_all_iff)
  then have "(r, k) \<in> set coords" using r k by (simp add: set_coords)
  moreover have "lockedLettered grid r k"
    using c r k by (simp add: lockedLettered_def)
  ultimately show "\<exists>(r, c)\<in>set coords. lockedLettered grid r c" by blast
next
  assume "\<exists>(r, c)\<in>set coords. lockedLettered grid r c"
  then obtain r c where rc: "r < BOARD_SIZE" "c < BOARD_SIZE" "lockedLettered grid r c"
    by (auto simp: set_coords)
  have len: "length grid = BOARD_SIZE" "length (grid ! r) = BOARD_SIZE"
    using assms rc(1) by (auto simp: wellFormed_def list_all_iff)
  have "grid ! r \<in> set grid" "grid ! r ! c \<in> set (grid ! r)"
    using rc len by simp_all
  then show "hasLockedTiles grid"
    using rc(3) unfolding hasLockedTiles_def list_ex_iff lockedLettered_def by blast
qed

lemma lockedNeighbor_nat:
  "lockedNeighbor grid (int r', int c')
     = (r' < BOARD_SIZE \<and> c' < BOARD_SIZE \<and> lockedLettered grid r' c')"
  by (auto simp: lockedNeighbor_def lockedLettered_def Let_def)

lemma lockedNeighbor_up:
  "lockedNeighbor grid (int r - 1, int c)
     = (r > 0 \<and> r - 1 < BOARD_SIZE \<and> c < BOARD_SIZE \<and> lockedLettered grid (r - 1) c)"
proof (cases r)
  case 0
  then show ?thesis by (simp add: lockedNeighbor_def)
next
  case (Suc k)
  then have "int r - 1 = int k" by simp
  then show ?thesis using Suc by (simp add: lockedNeighbor_nat)
qed

lemma lockedNeighbor_left:
  "lockedNeighbor grid (int r, int c - 1)
     = (c > 0 \<and> r < BOARD_SIZE \<and> c - 1 < BOARD_SIZE \<and> lockedLettered grid r (c - 1))"
proof (cases c)
  case 0
  then show ?thesis by (simp add: lockedNeighbor_def)
next
  case (Suc k)
  then have "int c - 1 = int k" by simp
  then show ?thesis using Suc by (simp add: lockedNeighbor_nat)
qed

lemma lockedNeighbor_down:
  "lockedNeighbor grid (int r + 1, int c)
     = (r + 1 < BOARD_SIZE \<and> c < BOARD_SIZE \<and> lockedLettered grid (r + 1) c)"
  using lockedNeighbor_nat [of grid "r + 1" c] by (simp add: add.commute)

lemma lockedNeighbor_right:
  "lockedNeighbor grid (int r, int c + 1)
     = (r < BOARD_SIZE \<and> c + 1 < BOARD_SIZE \<and> lockedLettered grid r (c + 1))"
  using lockedNeighbor_nat [of grid r "c + 1"] by (simp add: add.commute)

lemma neighbors4_touches:
  assumes "r < BOARD_SIZE" "c < BOARD_SIZE"
  shows "list_ex (lockedNeighbor grid) (neighbors4 (int r) (int c)) = touchesLocked grid r c"
  using assms
  by (auto simp: neighbors4_def touchesLocked_def lockedNeighbor_up lockedNeighbor_down
      lockedNeighbor_left lockedNeighbor_right)

lemma connectivityCheck_iff:
  assumes "wellFormed grid"
  shows "connectivityCheck grid =
     ((\<exists>(r, c)\<in>set coords. lockedLettered grid r c) \<and> (\<exists>(r, c)\<in>set coords. newlyPlaced grid r c)
       \<longrightarrow> (\<exists>(r, c)\<in>set coords. newlyPlaced grid r c \<and> touchesLocked grid r c))"
proof -
  have new: "set (newTilesOf grid) = {(r, c). (r, c) \<in> set coords \<and> newlyPlaced grid r c}"
    by (auto simp: newTilesOf_def newlyPlaced_def)
  have nonempty: "(length (newTilesOf grid) > 0) = (\<exists>(r, c)\<in>set coords. newlyPlaced grid r c)"
  proof -
    have "(length (newTilesOf grid) > 0) = (set (newTilesOf grid) \<noteq> {})" by simp
    then show ?thesis unfolding new by auto
  qed
  have conn: "list_ex (\<lambda>(r, c). list_ex (lockedNeighbor grid) (neighbors4 (int r) (int c)))
                (newTilesOf grid)
              = (\<exists>(r, c)\<in>set coords. newlyPlaced grid r c \<and> touchesLocked grid r c)"
  proof -
    have nt: "list_ex (lockedNeighbor grid) (neighbors4 (int r) (int c))
                = touchesLocked grid r c" if "(r, c) \<in> set coords" for r c
      using that by (simp add: set_coords neighbors4_touches)
    show ?thesis
      unfolding list_ex_iff [of _ "newTilesOf grid"] new using nt by blast
  qed
  show ?thesis
    unfolding connectivityCheck_def Let_def nonempty conn hasLockedTiles_iff [OF assms]
    by auto
qed

lemma validate_connectivity:
  assumes "wellFormed grid" "validatePlacementRules grid gameMode ''ACROSTIC'' dictionary"
  shows "connectivityCheck grid"
  using assms(2) by (auto simp: validatePlacementRules_def split: option.splits if_splits)

text \<open>
  C4 (as amended). In ACROSTIC placement mode, on a board that holds a locked lettered
  tile and a newly placed (unlocked) lettered tile, \<open>validatePlacementRules\<close> returns
  true only if at least one newly placed tile has a locked lettered orthogonal
  neighbour; a candidate grid none of whose newly placed tiles has such a neighbour is
  rejected. One connected tile is enough: the rule does not ask it of every new tile.
\<close>

theorem connectivity_rule:
  assumes "wellFormed grid"
    and "\<exists>(r, c)\<in>set coords. lockedLettered grid r c"
    and "\<exists>(r, c)\<in>set coords. newlyPlaced grid r c"
  shows "(validatePlacementRules grid gameMode ''ACROSTIC'' dictionary \<longrightarrow>
            (\<exists>(r, c)\<in>set coords. newlyPlaced grid r c \<and> touchesLocked grid r c))
       \<and> ((\<forall>(r, c)\<in>set coords. newlyPlaced grid r c \<longrightarrow> \<not> touchesLocked grid r c) \<longrightarrow>
            \<not> validatePlacementRules grid gameMode ''ACROSTIC'' dictionary)"
proof -
  have "\<exists>(r, c)\<in>set coords. newlyPlaced grid r c \<and> touchesLocked grid r c"
    if "validatePlacementRules grid gameMode ''ACROSTIC'' dictionary"
  proof -
    have "connectivityCheck grid"
      using assms(1) that by (rule validate_connectivity)
    then show ?thesis
      using assms(2,3) unfolding connectivityCheck_iff [OF assms(1)] by blast
  qed
  then show ?thesis by blast
qed

theorem connectivity_rule_witness:
  "wellFormed strayBoard
   \<and> validatePlacementRules strayBoard ''DYNAMIC'' ''ACROSTIC''
        (Some (set [''AB'', ''ABC'', ''XY'']))
   \<and> (\<exists>(r, c)\<in>set coords. newlyPlaced strayBoard r c \<and> touchesLocked strayBoard r c)
   \<and> wellFormed detachedBoard
   \<and> \<not> validatePlacementRules detachedBoard ''DYNAMIC'' ''ACROSTIC''
          (Some (set [''AB'', ''ABC'', ''XY'']))"
proof -
  have wf: "wellFormed strayBoard" by code_simp
  have locked: "\<exists>(r, c)\<in>set coords. lockedLettered strayBoard r c" by code_simp
  have new: "\<exists>(r, c)\<in>set coords. newlyPlaced strayBoard r c" by code_simp
  have valid: "validatePlacementRules strayBoard ''DYNAMIC'' ''ACROSTIC''
                 (Some (set [''AB'', ''ABC'', ''XY'']))"
    by code_simp
  have wf': "wellFormed detachedBoard" by code_simp
  have locked': "\<exists>(r, c)\<in>set coords. lockedLettered detachedBoard r c" by code_simp
  have new': "\<exists>(r, c)\<in>set coords. newlyPlaced detachedBoard r c" by code_simp
  have none: "\<forall>(r, c)\<in>set coords. newlyPlaced detachedBoard r c
                \<longrightarrow> \<not> touchesLocked detachedBoard r c"
    by code_simp
  show ?thesis
    using connectivity_rule [OF wf locked new, of "''DYNAMIC''"
        "Some (set [''AB'', ''ABC'', ''XY''])"]
      connectivity_rule [OF wf' locked' new', of "''DYNAMIC''"
        "Some (set [''AB'', ''ABC'', ''XY''])"]
      wf valid wf' none
    by blast
qed

theorem connectivity_every_tile_counterexample:
  "validatePlacementRules strayBoard ''DYNAMIC'' ''ACROSTIC''
     (Some (set [''AB'', ''ABC'', ''XY'']))
   \<and> hasLockedTiles strayBoard
   \<and> newlyPlaced strayBoard 0 0
   \<and> \<not> touchesLocked strayBoard 0 0
   \<and> \<not> linkedToLocked strayBoard 0 0"
  by code_simp


section \<open>Base scoring: properties\<close>

declare walkBack.simps [simp del] walkForward.simps [simp del]

lemma walkBack_same:
  assumes "sameLetters g g'"
  shows "walkBack g' dr dc r c = walkBack g dr dc r c"
  using assms
proof (induction g dr dc r c rule: walkBack.induct)
  case (1 grid dr dc currR currC)
  have t: "truthy (letter (g' ! i ! j)) = truthy (letter (grid ! i ! j))" for i j
    using "1.prems" by (simp add: sameLetters_def)
  show ?case
  proof (cases "(dr > 0 \<or> dc > 0)
         \<and> currR \<ge> dr \<and> currR - dr < BOARD_SIZE
         \<and> currC \<ge> dc \<and> currC - dc < BOARD_SIZE
         \<and> truthy (letter (grid ! (currR - dr) ! (currC - dc)))")
    case True
    have "walkBack g' dr dc currR currC = walkBack g' dr dc (currR - dr) (currC - dc)"
      using True by (subst walkBack.simps) (simp add: t)
    also have "\<dots> = walkBack grid dr dc (currR - dr) (currC - dc)"
      using True "1.prems" by (intro "1.IH") simp_all
    also have "\<dots> = walkBack grid dr dc currR currC"
      using True by (subst (2) walkBack.simps) simp
    finally show ?thesis .
  next
    case False
    have "walkBack g' dr dc currR currC = (currR, currC)"
      using False by (subst walkBack.simps) (auto simp: t)
    moreover have "walkBack grid dr dc currR currC = (currR, currC)"
      using False by (subst walkBack.simps) auto
    ultimately show ?thesis by simp
  qed
qed

lemma walkForward_same:
  assumes "sameLetters g g'"
  shows "map getCellScore (walkForward g' dr dc r c) = map getCellScore (walkForward g dr dc r c)"
  using assms
proof (induction g dr dc r c rule: walkForward.induct)
  case (1 grid dr dc currR currC)
  have t: "truthy (letter (g' ! i ! j)) = truthy (letter (grid ! i ! j))" for i j
    using "1.prems" by (simp add: sameLetters_def)
  have s: "getCellScore (g' ! i ! j) = getCellScore (grid ! i ! j)" for i j
    using "1.prems" by (simp add: sameLetters_def)
  show ?case
  proof (cases "(dr > 0 \<or> dc > 0)
         \<and> currR < BOARD_SIZE \<and> currC < BOARD_SIZE
         \<and> truthy (letter (grid ! currR ! currC))")
    case True
    have a: "walkForward g' dr dc currR currC
            = g' ! currR ! currC # walkForward g' dr dc (currR + dr) (currC + dc)"
      using True by (subst walkForward.simps) (simp add: t)
    have b: "walkForward grid dr dc currR currC
            = grid ! currR ! currC # walkForward grid dr dc (currR + dr) (currC + dc)"
      using True by (subst walkForward.simps) simp
    have "map getCellScore (walkForward g' dr dc (currR + dr) (currC + dc))
            = map getCellScore (walkForward grid dr dc (currR + dr) (currC + dc))"
      using True "1.prems" by (intro "1.IH") simp_all
    then show ?thesis by (simp only: a b list.map s)
  next
    case False
    have "walkForward g' dr dc currR currC = []"
      using False by (subst walkForward.simps) (auto simp: t)
    moreover have "walkForward grid dr dc currR currC = []"
      using False by (subst walkForward.simps) auto
    ultimately show ?thesis by simp
  qed
qed

lemma foldl_scores:
  "foldl (\<lambda>s cell. s + getCellScore cell) a cells = a + sum_list (map getCellScore cells)"
  by (induction cells arbitrary: a) simp_all

lemma scan_same:
  assumes "sameLetters g g'"
  shows "scan g' st r c dr dc = scan g st r c dr dc"
proof -
  obtain startR startC where w: "walkBack g dr dc r c = (startR, startC)"
    by (cases "walkBack g dr dc r c")
  have m: "map getCellScore (walkForward g' dr dc startR startC)
            = map getCellScore (walkForward g dr dc startR startC)"
    using assms by (rule walkForward_same)
  have len: "length (walkForward g' dr dc startR startC) = length (walkForward g dr dc startR startC)"
    using m by (metis length_map)
  show ?thesis
    by (simp add: scan_def walkBack_same [OF assms] w Let_def foldl_scores m len
        split: prod.splits)
qed

lemma calculateScrabbleScore_same:
  assumes "sameLetters g g'"
  shows "calculateScrabbleScore g' newTiles = calculateScrabbleScore g newTiles"
proof -
  have t: "truthy (letter (g' ! i ! j)) = truthy (letter (g ! i ! j))" for i j
    using assms by (simp add: sameLetters_def)
  show ?thesis
    unfolding calculateScrabbleScore_def by (simp only: t scan_same [OF assms])
qed

lemma setLetter_nth:
  "setLetter g r c l ! i ! j
     = (if i = r \<and> j = c \<and> r < length g \<and> c < length (g ! r)
        then (g ! r ! c)\<lparr>letter := Some l\<rparr> else g ! i ! j)"
proof (cases "r < length g")
  case False
  then show ?thesis by (simp add: setLetter_def list_update_beyond)
next
  case r: True
  show ?thesis
  proof (cases "i = r")
    case False
    then show ?thesis by (simp add: setLetter_def)
  next
    case i: True
    show ?thesis
    proof (cases "c < length (g ! r)")
      case False
      then show ?thesis using r i by (simp add: setLetter_def list_update_beyond)
    next
      case True
      then show ?thesis using r i by (cases "j = c") (simp_all add: setLetter_def)
    qed
  qed
qed

lemma setLetter_sameLetters:
  assumes "isBlank (g ! r ! c)" "truthy (letter (g ! r ! c))" "l \<noteq> []"
  shows "sameLetters g (setLetter g r c l)"
  using assms by (auto simp: sameLetters_def setLetter_nth getCellScore_def truthy_def)

text \<open>
  C9. For every board, every list of newly placed cells and every lettered cell with
  \<open>isBlank\<close> set, replacing the cell's letter by any other (non-empty) letter leaves the
  result of \<open>calculateScrabbleScore\<close> unchanged: the cell scores 0 whatever its letter.
\<close>

theorem blank_invariance:
  assumes "isBlank (grid ! r ! c)" and "truthy (letter (grid ! r ! c))" and "l \<noteq> []"
  shows "calculateScrabbleScore (setLetter grid r c l) newTiles
           = calculateScrabbleScore grid newTiles
       \<and> getCellScore (grid ! r ! c) = 0
       \<and> getCellScore ((grid ! r ! c)\<lparr>letter := Some l\<rparr>) = 0"
proof -
  have "sameLetters grid (setLetter grid r c l)"
    using assms by (rule setLetter_sameLetters)
  then have "calculateScrabbleScore (setLetter grid r c l) newTiles
               = calculateScrabbleScore grid newTiles"
    by (rule calculateScrabbleScore_same)
  then show ?thesis using assms(1) by (simp add: getCellScore_def)
qed

theorem blank_invariance_witness:
  "isBlank (blankCatBoard ! 5 ! 5) \<and> truthy (letter (blankCatBoard ! 5 ! 5))
   \<and> calculateScrabbleScore (setLetter blankCatBoard 5 5 ''B'') [(5, 5), (5, 6), (5, 7)]
       = calculateScrabbleScore blankCatBoard [(5, 5), (5, 6), (5, 7)]"
proof -
  have b: "isBlank (blankCatBoard ! 5 ! 5)" by code_simp
  have t: "truthy (letter (blankCatBoard ! 5 ! 5))" by code_simp
  have l: "''B'' \<noteq> []" by simp
  show ?thesis
    using blank_invariance [OF b t l, of "[(5, 5), (5, 6), (5, 7)]"] b t by blast
qed


section \<open>Logic chains: properties\<close>

lemma actionStep_pair:
  "actionStep (outcome, established) a
     = (specCascade outcome established [a], established \<or> op a = THEN)"
  by (cases "op a") (auto simp: actionStep_def)

lemma specCascade_Cons:
  "specCascade outcome established (a # rest)
     = specCascade (specCascade outcome established [a]) (established \<or> op a = THEN) rest"
  by (cases "op a") auto

lemma actionStep_fold:
  "foldl actionStep (outcome, established) acts
     = (specCascade outcome established acts, established \<or> (\<exists>a\<in>set acts. op a = THEN))"
proof (induction acts arbitrary: outcome established)
  case Nil
  then show ?case by simp
next
  case (Cons a acts)
  have "foldl actionStep (outcome, established) (a # acts)
          = foldl actionStep
              (specCascade outcome established [a], established \<or> op a = THEN) acts"
    by (simp only: foldl_Cons actionStep_pair)
  also have "\<dots> = (specCascade (specCascade outcome established [a])
                       (established \<or> op a = THEN) acts,
                    (established \<or> op a = THEN) \<or> (\<exists>a\<in>set acts. op a = THEN))"
    by (rule Cons.IH)
  also have "\<dots> = (specCascade outcome established (a # acts),
                    established \<or> (\<exists>a\<in>set (a # acts). op a = THEN))"
    by (simp only: specCascade_Cons [of outcome established a acts]) auto
  finally show ?case .
qed

lemma THEN_in_actionsOf:
  "(\<exists>a\<in>set (actionsOf ops). op a = THEN) = (\<exists>a\<in>set ops. op a = THEN)"
  by (auto simp: actionsOf_def)

lemma cascadeOutcomeOf_spec:
  assumes "triggersOf (compiledOps chain) \<noteq> []" "actionsOf (compiledOps chain) \<noteq> []"
  shows "cascadeOutcomeOf chain =
           (if \<exists>a\<in>set (compiledOps chain). op a = THEN
            then Some (specCascade 0 False (actionsOf (compiledOps chain))) else None)"
  using assms
  by (simp add: cascadeOutcomeOf_def Let_def actionStep_fold THEN_in_actionsOf)

lemma cascadeOutcomeOf_no_THEN:
  assumes "\<not> (\<exists>a\<in>set (compiledOps chain). op a = THEN)"
  shows "cascadeOutcomeOf chain = None"
  using assms
  by (simp add: cascadeOutcomeOf_def Let_def actionStep_fold THEN_in_actionsOf)


lemma find_filter_hd: "find P xs = (case filter P xs of [] \<Rightarrow> None | x # _ \<Rightarrow> Some x)"
  by (induction xs) auto

lemma take1_case: "(case (case xs of [] \<Rightarrow> None | x # _ \<Rightarrow> Some x) of Some x \<Rightarrow> [x] | None \<Rightarrow> []) = take 1 xs"
  by (cases xs) auto

lemma sort_key_twice: "sort_key f (sort_key f xs) = sort_key f xs"
  by (simp add: sort_key_id_if_sorted)

lemma ofKinds_sorted_filter:
  "sort_key turn (filter (\<lambda>x. op x \<in> set ks) (sort_key turn xs)) = ofKinds ks xs"
  by (simp add: ofKinds_def filter_sort sort_key_twice)

lemma sort_key_ofKinds: "sort_key turn (ofKinds ks xs) = ofKinds ks xs"
  by (simp add: ofKinds_def sort_key_twice)

lemma ofKinds_filter_sorted:
  "filter (\<lambda>x. op x \<in> set ks) (sort_key turn xs) = ofKinds ks xs"
  by (simp add: ofKinds_def filter_sort)

lemma assembleChain_specChain: "assembleChain xs = specChain xs"
proof -
  have a: "(\<lambda>x. op x = IF) = (\<lambda>x. op x \<in> set [IF])" 
          "(\<lambda>x. op x = OR) = (\<lambda>x. op x \<in> set [OR])"
          "(\<lambda>x. op x = THEN) = (\<lambda>x. op x \<in> set [THEN])"
          "(\<lambda>x. op x = AND \<or> op x = PLUS) = (\<lambda>x. op x \<in> set [AND, PLUS])"
    by auto
  show ?thesis
    unfolding assembleChain_def specChain_def Let_def find_filter_hd take1_case a
      ofKinds_sorted_filter ofKinds_filter_sorted
    by (simp add: sort_key_ofKinds)
qed

lemma ofKinds_props:
  "sorted (map turn (ofKinds ks xs))" "mset (ofKinds ks xs) = mset (filter (\<lambda>x. op x \<in> set ks) xs)"
  by (simp_all add: ofKinds_def)

lemma ofKinds_hd_min:
  assumes "ofKinds ks xs = e # rest" "x \<in> set xs" "op x \<in> set ks"
  shows "turn e \<le> turn x"
proof -
  have "set (ofKinds ks xs) = {x \<in> set xs. op x \<in> set ks}"
    by (simp add: ofKinds_def)
  then have "x \<in> set (e # rest)" using assms by simp
  moreover have "sorted (map turn (e # rest))"
    using assms(1) ofKinds_props(1) [of ks xs] by simp
  ultimately show ?thesis by auto
qed

lemma triggerStep_fold:
  "fst (foldl (triggerStep v ops w) (tot, active) trigs)
     = tot + v * int (length (filter (\<lambda>t. wmWord w = word t) trigs))"
proof (induction trigs arbitrary: tot active)
  case Nil
  then show ?case by simp
next
  case (Cons t trigs)
  obtain tot' active' where st: "triggerStep v ops w (tot, active) t = (tot', active')"
    by (cases "triggerStep v ops w (tot, active) t")
  have tot': "tot' = (if wmWord w = word t then tot + v else tot)"
    using st by (auto simp: triggerStep_def split: if_splits)
  show ?case
    by (simp only: foldl_Cons st Cons.IH) (simp add: tot' algebra_simps)
qed

lemma wordLoop_fold:
  "fst (foldl (\<lambda>st1 newWord. foldl (triggerStep v ops newWord) st1 trigs) (tot, active) ws)
     = tot + v * int (length (filter (\<lambda>(w, t). wmWord w = word t) (List.product ws trigs)))"
proof (induction ws arbitrary: tot active)
  case Nil
  then show ?case by simp
next
  case (Cons w ws)
  obtain tot' active' where st: "foldl (triggerStep v ops w) (tot, active) trigs = (tot', active')"
    by (cases "foldl (triggerStep v ops w) (tot, active) trigs")
  have tot': "tot' = tot + v * int (length (filter (\<lambda>t. wmWord w = word t) trigs))"
    using triggerStep_fold [of v ops w tot active trigs] st by simp
  show ?case
    by (simp only: foldl_Cons st Cons.IH)
       (simp add: tot' filter_map comp_def algebra_simps)
qed

lemma isTriggerKind_iff: "isTriggerKind k = (k = IF \<or> k = OR)"
  by (cases k) simp_all

lemma triggersOf_spec: "triggersOf ops = specTriggers ops"
  by (simp add: triggersOf_def specTriggers_def isTriggerKind_iff)

lemma actionsOf_spec: "actionsOf ops = specActions ops"
  by (simp add: actionsOf_def specActions_def isTriggerKind_iff)

lemma cascadeOutcomeOf_specOutcome:
  "(case cascadeOutcomeOf chain of None \<Rightarrow> 0 | Some v \<Rightarrow> v * n) = specOutcome chain * n"
proof (cases "triggersOf (compiledOps chain) = [] \<or> actionsOf (compiledOps chain) = []")
  case True
  then have none: "cascadeOutcomeOf chain = None"
    by (auto simp: cascadeOutcomeOf_def)
  have "specTriggers (compiledOps chain) = []
          \<or> \<not> list_ex (\<lambda>x. op x = THEN) (specActions (compiledOps chain))"
    using True by (auto simp: triggersOf_spec actionsOf_spec)
  then show ?thesis using none by (auto simp: specOutcome_def)
next
  case False
  then have ne: "triggersOf (compiledOps chain) \<noteq> []" "actionsOf (compiledOps chain) \<noteq> []"
    by simp_all
  show ?thesis
    using ne(1)
    by (simp add: cascadeOutcomeOf_spec [OF ne] specOutcome_def list_ex_iff
          THEN_in_actionsOf triggersOf_spec [symmetric] actionsOf_spec [symmetric])
qed

lemma chainStep_fst:
  "fst (chainStep allValidWords currentTurn (tot, active) chain)
     = tot + specOutcome chain * int (length (replays chain allValidWords currentTurn))"
proof -
  have "fst (chainStep allValidWords currentTurn (tot, active) chain)
     = tot + (case cascadeOutcomeOf chain of None \<Rightarrow> 0
                | Some v \<Rightarrow> v * int (length (replays chain allValidWords currentTurn)))"
    by (cases "cascadeOutcomeOf chain")
       (simp_all add: chainStep_def Let_def wordLoop_fold replays_def triggersOf_spec)
  then show ?thesis by (simp only: cascadeOutcomeOf_specOutcome)
qed

lemma chainLoop_fold:
  "fst (foldl (chainStep allValidWords currentTurn) (tot, active) chainList)
     = tot + sum_list (map (\<lambda>chain. specOutcome chain
                 * int (length (replays chain allValidWords currentTurn))) chainList)"
proof (induction chainList arbitrary: tot active)
  case Nil
  then show ?case by simp
next
  case (Cons c cs)
  obtain tot' active' where st: "chainStep allValidWords currentTurn (tot, active) c = (tot', active')"
    by (cases "chainStep allValidWords currentTurn (tot, active) c")
  have tot': "tot' = tot + specOutcome c * int (length (replays c allValidWords currentTurn))"
    using chainStep_fst [of allValidWords currentTurn tot active c] st by simp
  show ?case
    by (simp only: foldl_Cons st Cons.IH) (simp add: tot')
qed

lemma calculateChainScore_sum:
  "score (calculateChainScore chainList allValidWords currentTurn)
     = sum_list (map (\<lambda>chain. specOutcome chain
                 * int (length (replays chain allValidWords currentTurn))) chainList)"
proof -
  obtain tot active where st:
    "foldl (chainStep allValidWords currentTurn) (0, []) chainList = (tot, active)"
    by (cases "foldl (chainStep allValidWords currentTurn) (0, []) chainList")
  show ?thesis
    using chainLoop_fold [of allValidWords currentTurn 0 "[]" chainList] st
    by (simp add: calculateChainScore_def)
qed

lemma replays_single:
  assumes "specTriggers (compiledOps chain) = [t]"
    and "\<forall>w\<in>set older. wmTurn w \<noteq> currentTurn"
    and "wmTurn w = currentTurn" "wmClusterId w = chainId chain"
  shows "length (replays chain (older @ [w]) currentTurn) = (if wmWord w = word t then 1 else 0)"
proof -
  have "filter (\<lambda>w. wmTurn w = currentTurn \<and> wmClusterId w = chainId chain) older = []"
    using assms(2) by (simp add: filter_empty_conv)
  then show ?thesis using assms by (simp add: replays_def)
qed

lemma lockStep_nth:
  assumes "r < length grid" "c < length (grid ! r)"
  shows "grid[r0 := (grid ! r0)[c0 := f (grid ! r0 ! c0)]] ! r ! c
           = (if r = r0 \<and> c = c0 then f (grid ! r ! c) else grid ! r ! c)"
  using assms by (cases "r = r0"; cases "c = c0") simp_all

lemma lockStep_length:
  "length (grid[r0 := (grid ! r0)[c0 := x]] ! r) = length (grid ! r)"
  by (cases "r = r0"; cases "r0 < length grid") (simp_all add: list_update_beyond)

lemma lockMoves_nth:
  assumes "r < length grid" "c < length (grid ! r)"
  shows "lockMoves t moves grid ! r ! c
           = (if (r, c) \<in> set (map (\<lambda>(r, c, l). (r, c)) moves)
              then (grid ! r ! c)\<lparr>isLocked := True, turnPlaced := Some t\<rparr>
              else grid ! r ! c)"
  using assms
proof (induction moves arbitrary: grid)
  case Nil
  then show ?case by (simp add: lockMoves_def)
next
  case (Cons m moves)
  obtain r0 c0 l0 where m: "m = (r0, c0, l0)" by (cases m)
  define grid' where
    "grid' = grid[r0 := (grid ! r0)
               [c0 := (grid ! r0 ! c0)\<lparr>isLocked := True, turnPlaced := Some t\<rparr>]]"
  have step: "lockMoves t (m # moves) grid = lockMoves t moves grid'"
    by (simp add: lockMoves_def m grid'_def)
  have len: "r < length grid'" "c < length (grid' ! r)"
    using Cons.prems by (simp_all add: grid'_def lockStep_length)
  have cell: "grid' ! r ! c
           = (if r = r0 \<and> c = c0
              then (grid ! r ! c)\<lparr>isLocked := True, turnPlaced := Some t\<rparr>
              else grid ! r ! c)"
    unfolding grid'_def using Cons.prems
    by (rule lockStep_nth [where f = "\<lambda>x. x\<lparr>isLocked := True, turnPlaced := Some t\<rparr>"])
  show ?case
    unfolding step Cons.IH [OF len] cell
    by (auto simp: m)
qed

text \<open>
  C1. For every chain with at least one trigger and at least one action, the cascade
  outcome computed by \<open>calculateChainScore\<close> is the specification's fold of the actions
  in chain order, from 0 and not established, when the chain has a THEN entry; with no
  THEN entry the chain has no outcome, it leaves the running total as it is and a lone
  such chain scores 0. The word scores 5 (THEN), 10 (PLUS), 2 (MULT) give 30, and an
  OVER word of score 0 after them leaves 30. The word scores 5 (THEN), 6 (AND),
  4 (MINUS) give 7.
\<close>

theorem cascade_outcome_fold:
  assumes "triggersOf (compiledOps chain) \<noteq> []" and "actionsOf (compiledOps chain) \<noteq> []"
  shows "cascadeOutcomeOf chain =
           (if \<exists>a\<in>set (compiledOps chain). op a = THEN
            then Some (specCascade 0 False (actionsOf (compiledOps chain))) else None)
       \<and> ((\<forall>a\<in>set (compiledOps chain). op a \<noteq> THEN) \<longrightarrow>
            chainStep allValidWords currentTurn st chain = st
            \<and> score (calculateChainScore [chain] allValidWords currentTurn) = 0)
       \<and> cascadeOutcomeOf
            \<lparr>chainId = 1,
             compiledOps = [entry IF 1 ''CAT'' 5, entry THEN 2 ''DOG'' 5,
                            entry PLUS 3 ''HORSE'' 10, entry MULT 4 ''AA'' 2],
             dataWords = []\<rparr> = Some 30
       \<and> cascadeOutcomeOf
            \<lparr>chainId = 1,
             compiledOps = [entry IF 1 ''CAT'' 5, entry THEN 2 ''DOG'' 5,
                            entry PLUS 3 ''HORSE'' 10, entry MULT 4 ''AA'' 2,
                            entry OVER 5 ''??'' 0],
             dataWords = []\<rparr> = Some 30
       \<and> cascadeOutcomeOf
            \<lparr>chainId = 1,
             compiledOps = [entry IF 1 ''CAT'' 5, entry THEN 2 ''DOG'' 5,
                            entry AND 3 ''OWL'' 6, entry MINUS 4 ''EMU'' 4],
             dataWords = []\<rparr> = Some 7"
proof -
  have general: "cascadeOutcomeOf chain =
           (if \<exists>a\<in>set (compiledOps chain). op a = THEN
            then Some (specCascade 0 False (actionsOf (compiledOps chain))) else None)"
    using assms by (rule cascadeOutcomeOf_spec)
  have none: "(\<forall>a\<in>set (compiledOps chain). op a \<noteq> THEN) \<longrightarrow>
            chainStep allValidWords currentTurn st chain = st
            \<and> score (calculateChainScore [chain] allValidWords currentTurn) = 0"
  proof
    assume "\<forall>a\<in>set (compiledOps chain). op a \<noteq> THEN"
    then have "cascadeOutcomeOf chain = None"
      by (intro cascadeOutcomeOf_no_THEN) simp
    then show "chainStep allValidWords currentTurn st chain = st
            \<and> score (calculateChainScore [chain] allValidWords currentTurn) = 0"
      by (simp add: chainStep_def calculateChainScore_def)
  qed
  have ex1: "cascadeOutcomeOf
            \<lparr>chainId = 1,
             compiledOps = [entry IF 1 ''CAT'' 5, entry THEN 2 ''DOG'' 5,
                            entry PLUS 3 ''HORSE'' 10, entry MULT 4 ''AA'' 2],
             dataWords = []\<rparr> = Some 30"
    by (simp add: cascadeOutcomeOf_def entry_def triggersOf_def actionsOf_def actionStep_def)
  have ex2: "cascadeOutcomeOf
            \<lparr>chainId = 1,
             compiledOps = [entry IF 1 ''CAT'' 5, entry THEN 2 ''DOG'' 5,
                            entry PLUS 3 ''HORSE'' 10, entry MULT 4 ''AA'' 2,
                            entry OVER 5 ''??'' 0],
             dataWords = []\<rparr> = Some 30"
    by (simp add: cascadeOutcomeOf_def entry_def triggersOf_def actionsOf_def actionStep_def)
  have ex3: "cascadeOutcomeOf
            \<lparr>chainId = 1,
             compiledOps = [entry IF 1 ''CAT'' 5, entry THEN 2 ''DOG'' 5,
                            entry AND 3 ''OWL'' 6, entry MINUS 4 ''EMU'' 4],
             dataWords = []\<rparr> = Some 7"
    by (simp add: cascadeOutcomeOf_def entry_def triggersOf_def actionsOf_def actionStep_def)
  show ?thesis using general none ex1 ex2 ex3 by blast
qed

theorem cascade_outcome_fold_witness:
  "triggersOf [entry OR 1 ''CAT'' 5, entry THEN 2 ''DOG'' 7, entry MINUS 3 ''EMU'' 9,
               entry OVER 4 ''AA'' 2] \<noteq> []
   \<and> actionsOf [entry OR 1 ''CAT'' 5, entry THEN 2 ''DOG'' 7, entry MINUS 3 ''EMU'' 9,
                 entry OVER 4 ''AA'' 2] \<noteq> []
   \<and> cascadeOutcomeOf
        \<lparr>chainId = 1,
         compiledOps = [entry OR 1 ''CAT'' 5, entry THEN 2 ''DOG'' 7, entry MINUS 3 ''EMU'' 9,
                        entry OVER 4 ''AA'' 2],
         dataWords = []\<rparr> = Some (- 1)
   \<and> specCascade 0 False [entry THEN 2 ''DOG'' 7, entry MINUS 3 ''EMU'' 9,
                            entry OVER 4 ''AA'' 2] = - 1"
proof -
  let ?ops = "[entry OR 1 ''CAT'' 5, entry THEN 2 ''DOG'' 7, entry MINUS 3 ''EMU'' 9,
               entry OVER 4 ''AA'' 2]"
  let ?chain = "\<lparr>chainId = 1, compiledOps = ?ops, dataWords = []\<rparr>"
  have t: "triggersOf (compiledOps ?chain) \<noteq> []"
    by (simp add: triggersOf_def entry_def)
  have a: "actionsOf (compiledOps ?chain) \<noteq> []"
    by (simp add: actionsOf_def entry_def)
  have acts: "actionsOf ?ops = [entry THEN 2 ''DOG'' 7, entry MINUS 3 ''EMU'' 9,
                                entry OVER 4 ''AA'' 2]"
    by (simp add: actionsOf_def entry_def)
  have v: "specCascade 0 False [entry THEN 2 ''DOG'' 7, entry MINUS 3 ''EMU'' 9,
                                entry OVER 4 ''AA'' 2] = - 1"
    by (simp add: entry_def)
  have "cascadeOutcomeOf ?chain = Some (- 1)"
    using cascade_outcome_fold [OF t a] acts v by (simp add: entry_def)
  then show ?thesis using t a v by simp
qed

text \<open>
  C2. The chain assembled from a cluster's operator entries is the five buckets of the
  specification in order: the first of the IF entries by turn (if any), the OR entries
  by turn, the first of the THEN entries by turn (if any), the AND and PLUS entries
  together by turn, and the MINUS, MULT and OVER entries together by turn. Each bucket
  holds exactly the entries of its kinds, ascending by turn, and its first entry has the
  least turn of them. Every compiled chain is assembled so from the entries of its
  cluster. The entries IF@1, OR@3, OR@2, THEN@4, AND@6, PLUS@5, MULT@7 compile to
  IF, OR@2, OR@3, THEN, PLUS@5, AND@6, MULT@7.
\<close>

theorem chain_assembly_order:
  "assembleChain clusterOps
     = take 1 (ofKinds [IF] clusterOps) @ ofKinds [OR] clusterOps
         @ take 1 (ofKinds [THEN] clusterOps) @ ofKinds [AND, PLUS] clusterOps
         @ ofKinds [MINUS, MULT, OVER] clusterOps
   \<and> sorted (map turn (ofKinds kinds clusterOps))
   \<and> mset (ofKinds kinds clusterOps) = mset (filter (\<lambda>x. op x \<in> set kinds) clusterOps)
   \<and> (\<forall>x\<in>set clusterOps. op x \<in> set kinds \<longrightarrow>
         (\<exists>e rest. ofKinds kinds clusterOps = e # rest \<and> turn e \<le> turn x))
   \<and> (\<forall>c\<in>set (compileChains rawOps dataWordsAll maxCluster).
         compiledOps c = specChain (filter (\<lambda>x. clusterId x = chainId c) rawOps))
   \<and> assembleChain
        [entry IF 1 ''A'' 1, entry OR 3 ''B'' 1, entry OR 2 ''C'' 1, entry THEN 4 ''D'' 1,
         entry AND 6 ''E'' 1, entry PLUS 5 ''F'' 1, entry MULT 7 ''G'' 1]
      = [entry IF 1 ''A'' 1, entry OR 2 ''C'' 1, entry OR 3 ''B'' 1, entry THEN 4 ''D'' 1,
         entry PLUS 5 ''F'' 1, entry AND 6 ''E'' 1, entry MULT 7 ''G'' 1]"
proof -
  have buckets: "assembleChain clusterOps
     = take 1 (ofKinds [IF] clusterOps) @ ofKinds [OR] clusterOps
         @ take 1 (ofKinds [THEN] clusterOps) @ ofKinds [AND, PLUS] clusterOps
         @ ofKinds [MINUS, MULT, OVER] clusterOps"
    by (simp add: assembleChain_specChain specChain_def)
  have least: "\<forall>x\<in>set clusterOps. op x \<in> set kinds \<longrightarrow>
         (\<exists>e rest. ofKinds kinds clusterOps = e # rest \<and> turn e \<le> turn x)"
  proof (intro ballI impI)
    fix x assume x: "x \<in> set clusterOps" "op x \<in> set kinds"
    then have "x \<in> set (ofKinds kinds clusterOps)" by (simp add: ofKinds_def)
    then obtain e rest where e: "ofKinds kinds clusterOps = e # rest"
      by (cases "ofKinds kinds clusterOps") auto
    then have "turn e \<le> turn x" using x by (rule ofKinds_hd_min)
    then show "\<exists>e rest. ofKinds kinds clusterOps = e # rest \<and> turn e \<le> turn x"
      using e by blast
  qed
  have chains: "\<forall>c\<in>set (compileChains rawOps dataWordsAll maxCluster).
         compiledOps c = specChain (filter (\<lambda>x. clusterId x = chainId c) rawOps)"
    by (auto simp: compileChains_def compileCluster_def Let_def assembleChain_specChain
        split: if_splits)
  have example: "assembleChain
        [entry IF 1 ''A'' 1, entry OR 3 ''B'' 1, entry OR 2 ''C'' 1, entry THEN 4 ''D'' 1,
         entry AND 6 ''E'' 1, entry PLUS 5 ''F'' 1, entry MULT 7 ''G'' 1]
      = [entry IF 1 ''A'' 1, entry OR 2 ''C'' 1, entry OR 3 ''B'' 1, entry THEN 4 ''D'' 1,
         entry PLUS 5 ''F'' 1, entry AND 6 ''E'' 1, entry MULT 7 ''G'' 1]"
    by (simp add: assembleChain_def entry_def)
  show ?thesis
    using buckets least chains example ofKinds_props [of kinds clusterOps] by blast
qed

theorem chain_assembly_order_witness:
  "assembleChain [entry MULT 2 ''M'' 3, entry THEN 9 ''T'' 4, entry IF 5 ''I'' 1,
                  entry THEN 3 ''U'' 2, entry IF 4 ''J'' 6]
     = [entry IF 4 ''J'' 6, entry THEN 3 ''U'' 2, entry MULT 2 ''M'' 3]
   \<and> ofKinds [IF] [entry MULT 2 ''M'' 3, entry THEN 9 ''T'' 4, entry IF 5 ''I'' 1,
                    entry THEN 3 ''U'' 2, entry IF 4 ''J'' 6]
       = [entry IF 4 ''J'' 6, entry IF 5 ''I'' 1]"
proof -
  let ?ops = "[entry MULT 2 ''M'' 3, entry THEN 9 ''T'' 4, entry IF 5 ''I'' 1,
               entry THEN 3 ''U'' 2, entry IF 4 ''J'' 6]"
  have k: "ofKinds [IF] ?ops = [entry IF 4 ''J'' 6, entry IF 5 ''I'' 1]"
          "ofKinds [OR] ?ops = []"
          "ofKinds [THEN] ?ops = [entry THEN 3 ''U'' 2, entry THEN 9 ''T'' 4]"
          "ofKinds [AND, PLUS] ?ops = []"
          "ofKinds [MINUS, MULT, OVER] ?ops = [entry MULT 2 ''M'' 3]"
    by (simp_all add: ofKinds_def entry_def)
  show ?thesis
    using chain_assembly_order [of ?ops "[IF]" "[]" "[]" 0] unfolding k by simp
qed

text \<open>
  C3. The logic score of a turn is the sum, over the chains, of the chain's cascade
  outcome (0 for a chain with no trigger or no THEN entry) once for every pair of a word
  formed in the current turn in the chain's cluster and a trigger of the chain, an entry
  of kind IF or OR, with exactly the same text. For a chain whose only trigger has the
  word CAT and whose cascade outcome is 30, a turn whose one new word lies in the
  chain's cluster adds exactly 30 to the mover's score when the word is CAT and 0 when
  it is any other word. For the chain IF CAT, THEN DOG, PLUS HORSE, MULT AA the new word
  CAT pays 30, and the new words DOG, HORSE and AA, the words of its actions, pay 0, as
  do a new word CAT in another cluster and a word CAT of an earlier turn. A committed
  turn adds the base score and this logic score to the mover's score, computed for the
  board on which the cells of the turn's moves are locked and stamped with the current
  turn and every other cell is as it was. On the example board, whose chain is IF CAT,
  THEN ACT with outcome 5, the turn that forms a second CAT scores 5 + 5, the turn that
  forms a second ACT (the word of the THEN entry) scores 5 + 0, and so does, in GO mode,
  the turn that forms CAT in another cluster.
\<close>

theorem trigger_replay:
  "score (calculateChainScore chainList allValidWords currentTurn)
     = sum_list (map (\<lambda>chain. specOutcome chain
                 * int (length (replays chain allValidWords currentTurn))) chainList)
   \<and> (specTriggers (compiledOps chain) = [t] \<and> word t = ''CAT''
        \<and> specOutcome chain = 30
        \<and> (\<forall>w\<in>set older. wmTurn w \<noteq> currentTurn)
        \<and> wmTurn w = currentTurn \<and> wmClusterId w = chainId chain
      \<longrightarrow> newScore moverScore baseScore (calculateChainScore [chain] (older @ [w]) currentTurn)
            = moverScore + baseScore + (if wmWord w = ''CAT'' then 30 else 0))
   \<and> map (\<lambda>w. score (calculateChainScore [catChain]
                   [formed ''CAT'' 1 1, formed w 6 1] 6))
        [''CAT'', ''DOG'', ''HORSE'', ''AA'', ''COT''] = [30, 0, 0, 0, 0]
   \<and> score (calculateChainScore [catChain] [formed ''CAT'' 1 1, formed ''CAT'' 6 2] 6) = 0
   \<and> score (calculateChainScore [catChain] [formed ''CAT'' 1 1] 6) = 0
   \<and> (gTurnMoves g \<noteq> []
        \<and> resolveGridWithBlanks (gGrid g) (gGameMode g) (gPlacementMode g) (gDictionary g)
            = Some resolved
      \<longrightarrow> gPlayerScore (commitPlayerTurn g)
            = gPlayerScore g
              + calculateScrabbleScore resolved (map (\<lambda>(r, c, l). (r, c)) (gTurnMoves g))
              + sum_list (map (\<lambda>chain. specOutcome chain
                   * int (length (replays chain
                       (resAllValidWords (analyzeBoardLogic (gGrid (commitPlayerTurn g))
                          (gDictionary g) (gPlacementMode g)))
                       (gTurnCount g))))
                  (resChains (analyzeBoardLogic (gGrid (commitPlayerTurn g))
                     (gDictionary g) (gPlacementMode g))))
          \<and> (wellFormed resolved \<and> r < BOARD_SIZE \<and> c < BOARD_SIZE
                \<and> (\<forall>(r', c', l)\<in>set (gTurnMoves g). r' < BOARD_SIZE \<and> c' < BOARD_SIZE)
              \<longrightarrow> gGrid (commitPlayerTurn g) ! r ! c
                    = (if (r, c) \<in> set (map (\<lambda>(r, c, l). (r, c)) (gTurnMoves g))
                       then (resolved ! r ! c)\<lparr>isLocked := True,
                                                turnPlaced := Some (gTurnCount g)\<rparr>
                       else resolved ! r ! c)))
   \<and> map (\<lambda>c. (chainId c, map (\<lambda>x. (op x, word x, wordScore x)) (compiledOps c)))
        (resChains (analyzeBoardLogic
           (gGrid (commitPlayerTurn (catGame ''ACROSTIC'' [(2, 4, ''A''), (3, 4, ''C'')])))
           (Some {''CAT'', ''ACT''}) ''ACROSTIC''))
       = [(1, [(IF, ''CAT'', 5), (THEN, ''ACT'', 5)])]
   \<and> map (\<lambda>w. (wmWord w, wmTurn w, wmClusterId w))
        (resAllValidWords (analyzeBoardLogic
           (gGrid (commitPlayerTurn (catGame ''ACROSTIC'' [(2, 4, ''A''), (3, 4, ''C'')])))
           (Some {''CAT'', ''ACT''}) ''ACROSTIC''))
       = [(''CAT'', 1, 1), (''ACT'', 1, 1), (''ACT'', 3, 1)]
   \<and> gPlayerScore (commitPlayerTurn (catGame ''ACROSTIC'' [(2, 4, ''A''), (3, 4, ''C'')]))
       = 15 + 5 + 0
   \<and> gPlayerScore (commitPlayerTurn (catGame ''ACROSTIC'' [(2, 4, ''C''), (3, 4, ''A'')]))
       = 15 + 5 + 5
   \<and> gPlayerScore (commitPlayerTurn
        (catGame ''GO'' [(9, 6, ''C''), (9, 7, ''A''), (9, 8, ''T'')]))
       = 15 + 5 + 0"
proof -
  have particular: "newScore moverScore baseScore
            (calculateChainScore [chain] (older @ [w]) currentTurn)
            = moverScore + baseScore + (if wmWord w = ''CAT'' then 30 else 0)"
    if h: "specTriggers (compiledOps chain) = [t] \<and> word t = ''CAT''
        \<and> specOutcome chain = 30
        \<and> (\<forall>w\<in>set older. wmTurn w \<noteq> currentTurn)
        \<and> wmTurn w = currentTurn \<and> wmClusterId w = chainId chain"
  proof -
    have "length (replays chain (older @ [w]) currentTurn)
            = (if wmWord w = word t then 1 else 0)"
      using h by (intro replays_single) simp_all
    then show ?thesis
      using h by (simp add: newScore_def calculateChainScore_sum)
  qed
  have ex1: "map (\<lambda>w. score (calculateChainScore [catChain]
                   [formed ''CAT'' 1 1, formed w 6 1] 6))
        [''CAT'', ''DOG'', ''HORSE'', ''AA'', ''COT''] = [30, 0, 0, 0, 0]"
    by code_simp
  have ex2: "score (calculateChainScore [catChain]
               [formed ''CAT'' 1 1, formed ''CAT'' 6 2] 6) = 0"
    by code_simp
  have ex3: "score (calculateChainScore [catChain] [formed ''CAT'' 1 1] 6) = 0"
    by code_simp
  have commit: "gPlayerScore (commitPlayerTurn g)
            = gPlayerScore g
              + calculateScrabbleScore resolved (map (\<lambda>(r, c, l). (r, c)) (gTurnMoves g))
              + sum_list (map (\<lambda>chain. specOutcome chain
                   * int (length (replays chain
                       (resAllValidWords (analyzeBoardLogic (gGrid (commitPlayerTurn g))
                          (gDictionary g) (gPlacementMode g)))
                       (gTurnCount g))))
                  (resChains (analyzeBoardLogic (gGrid (commitPlayerTurn g))
                     (gDictionary g) (gPlacementMode g))))
          \<and> (wellFormed resolved \<and> r < BOARD_SIZE \<and> c < BOARD_SIZE
                \<and> (\<forall>(r', c', l)\<in>set (gTurnMoves g). r' < BOARD_SIZE \<and> c' < BOARD_SIZE)
              \<longrightarrow> gGrid (commitPlayerTurn g) ! r ! c
                    = (if (r, c) \<in> set (map (\<lambda>(r, c, l). (r, c)) (gTurnMoves g))
                       then (resolved ! r ! c)\<lparr>isLocked := True,
                                                turnPlaced := Some (gTurnCount g)\<rparr>
                       else resolved ! r ! c))"
    if h: "gTurnMoves g \<noteq> []
        \<and> resolveGridWithBlanks (gGrid g) (gGameMode g) (gPlacementMode g) (gDictionary g)
            = Some resolved"
  proof -
    have grid: "gGrid (commitPlayerTurn g) = lockMoves (gTurnCount g) (gTurnMoves g) resolved"
      using h by (simp add: commitPlayerTurn_def Let_def)
    have sc: "gPlayerScore (commitPlayerTurn g)
            = gPlayerScore g
              + calculateScrabbleScore resolved (map (\<lambda>(r, c, l). (r, c)) (gTurnMoves g))
              + score (calculateChainScore
                  (resChains (analyzeBoardLogic
                     (lockMoves (gTurnCount g) (gTurnMoves g) resolved)
                     (gDictionary g) (gPlacementMode g)))
                  (resAllValidWords (analyzeBoardLogic
                     (lockMoves (gTurnCount g) (gTurnMoves g) resolved)
                     (gDictionary g) (gPlacementMode g)))
                  (gTurnCount g))"
      using h by (simp add: commitPlayerTurn_def Let_def newScore_def)
    have cell: "gGrid (commitPlayerTurn g) ! r ! c
                    = (if (r, c) \<in> set (map (\<lambda>(r, c, l). (r, c)) (gTurnMoves g))
                       then (resolved ! r ! c)\<lparr>isLocked := True,
                                                turnPlaced := Some (gTurnCount g)\<rparr>
                       else resolved ! r ! c)"
      if wf: "wellFormed resolved \<and> r < BOARD_SIZE \<and> c < BOARD_SIZE"
    proof -
      have "r < length resolved" using wf by (simp add: wellFormed_def)
      moreover have "c < length (resolved ! r)"
        using wf by (simp add: wellFormed_def list_all_length)
      ultimately show ?thesis unfolding grid by (rule lockMoves_nth)
    qed
    show ?thesis
      unfolding sc calculateChainScore_sum grid [symmetric] using cell by blast
  qed
  have ex4: "map (\<lambda>c. (chainId c, map (\<lambda>x. (op x, word x, wordScore x)) (compiledOps c)))
        (resChains (analyzeBoardLogic
           (gGrid (commitPlayerTurn (catGame ''ACROSTIC'' [(2, 4, ''A''), (3, 4, ''C'')])))
           (Some {''CAT'', ''ACT''}) ''ACROSTIC''))
       = [(1, [(IF, ''CAT'', 5), (THEN, ''ACT'', 5)])]"
    by code_simp
  have ex5: "map (\<lambda>w. (wmWord w, wmTurn w, wmClusterId w))
        (resAllValidWords (analyzeBoardLogic
           (gGrid (commitPlayerTurn (catGame ''ACROSTIC'' [(2, 4, ''A''), (3, 4, ''C'')])))
           (Some {''CAT'', ''ACT''}) ''ACROSTIC''))
       = [(''CAT'', 1, 1), (''ACT'', 1, 1), (''ACT'', 3, 1)]"
    by code_simp
  have ex6: "gPlayerScore (commitPlayerTurn
               (catGame ''ACROSTIC'' [(2, 4, ''A''), (3, 4, ''C'')])) = 15 + 5 + 0"
    by code_simp
  have ex7: "gPlayerScore (commitPlayerTurn
               (catGame ''ACROSTIC'' [(2, 4, ''C''), (3, 4, ''A'')])) = 15 + 5 + 5"
    by code_simp
  have ex8: "gPlayerScore (commitPlayerTurn
        (catGame ''GO'' [(9, 6, ''C''), (9, 7, ''A''), (9, 8, ''T'')])) = 15 + 5 + 0"
    by code_simp
  show ?thesis
    using particular commit ex1 ex2 ex3 ex4 ex5 ex6 ex7 ex8
      calculateChainScore_sum [of chainList allValidWords currentTurn]
    by blast
qed

theorem trigger_replay_witness:
  "score (calculateChainScore [catChain] [formed ''CAT'' 1 1, formed ''CAT'' 6 1] 6) = 30
   \<and> score (calculateChainScore [catChain] [formed ''CAT'' 1 1, formed ''DOG'' 6 1] 6) = 0
   \<and> gPlayerScore (commitPlayerTurn (catGame ''ACROSTIC'' [(2, 4, ''C''), (3, 4, ''A'')]))
       = 25
   \<and> isLocked (gGrid (commitPlayerTurn
        (catGame ''ACROSTIC'' [(2, 4, ''C''), (3, 4, ''A'')])) ! 2 ! 4)
   \<and> turnPlaced (gGrid (commitPlayerTurn
        (catGame ''ACROSTIC'' [(2, 4, ''C''), (3, 4, ''A'')])) ! 2 ! 4) = Some 3"
proof -
  let ?old = "formed ''CAT'' 1 1"
  let ?cat = "formed ''CAT'' 6 1"
  let ?dog = "formed ''DOG'' 6 1"
  let ?g = "catGame ''ACROSTIC'' [(2, 4, ''C''), (3, 4, ''A'')]"
  have trig: "specTriggers (compiledOps catChain) = [entry IF 1 ''CAT'' 5]"
    by (simp add: specTriggers_def catChain_def entry_def)
  have out: "specOutcome catChain = 30"
    by (simp add: specOutcome_def specTriggers_def specActions_def catChain_def entry_def)
  have w: "word (entry IF 1 ''CAT'' 5) = ''CAT''" by (simp add: entry_def)
  have old: "\<forall>w\<in>set [?old]. wmTurn w \<noteq> 6" by (simp add: formed_def)
  have new: "wmTurn ?cat = 6" "wmClusterId ?cat = chainId catChain"
    "wmTurn ?dog = 6" "wmClusterId ?dog = chainId catChain"
    "wmWord ?cat = ''CAT''" "wmWord ?dog = ''DOG''"
    by (simp_all add: formed_def catChain_def)
  have moves: "gTurnMoves ?g \<noteq> []" by (simp add: catGame_def)
  have fields: "gGameMode ?g = ''DYNAMIC''" "gPlacementMode ?g = ''ACROSTIC''"
    "gDictionary ?g = Some {''CAT'', ''ACT''}" "gTurnCount ?g = 3" "gPlayerScore ?g = 15"
    "gTurnMoves ?g = [(2, 4, ''C''), (3, 4, ''A'')]"
    by (simp_all add: catGame_def)
  have res: "resolveGridWithBlanks (gGrid ?g) (gGameMode ?g) (gPlacementMode ?g)
               (gDictionary ?g) = Some (gGrid ?g)"
    by code_simp
  have wf: "wellFormed (gGrid ?g)" by code_simp
  have onBoard: "\<forall>(r', c', l)\<in>set (gTurnMoves ?g). r' < BOARD_SIZE \<and> c' < BOARD_SIZE"
    by (simp add: catGame_def BOARD_SIZE_def)
  have bounds: "2 < BOARD_SIZE" "4 < BOARD_SIZE" by (simp_all add: BOARD_SIZE_def)
  have base: "calculateScrabbleScore (gGrid ?g) (map (\<lambda>(r, c, l). (r, c)) (gTurnMoves ?g)) = 5"
    by code_simp
  have logic: "sum_list (map (\<lambda>chain. specOutcome chain
                   * int (length (replays chain
                       (resAllValidWords (analyzeBoardLogic (gGrid (commitPlayerTurn ?g))
                          (gDictionary ?g) (gPlacementMode ?g)))
                       (gTurnCount ?g))))
                  (resChains (analyzeBoardLogic (gGrid (commitPlayerTurn ?g))
                     (gDictionary ?g) (gPlacementMode ?g)))) = 5"
    by code_simp
  note inst = trigger_replay [of "[catChain]" "[?old, ?cat]" 6 catChain "entry IF 1 ''CAT'' 5"
      "[?old]" _ 0 0 ?g "gGrid ?g" 2 4]
  have cat: "newScore 0 0 (calculateChainScore [catChain] ([?old] @ [?cat]) 6) = 30"
    using inst [of ?cat] trig out w old new by simp
  have dog: "newScore 0 0 (calculateChainScore [catChain] ([?old] @ [?dog]) 6) = 0"
    using inst [of ?dog] trig out w old new by simp
  have sc: "gPlayerScore (commitPlayerTurn ?g) = 15 + 5 + 5"
    using inst [of ?cat] moves res base logic fields(5) by simp
  have cell: "gGrid (commitPlayerTurn ?g) ! 2 ! 4
                = (gGrid ?g ! 2 ! 4)\<lparr>isLocked := True, turnPlaced := Some 3\<rparr>"
    using inst [of ?cat] moves res wf onBoard bounds fields(4,6) by simp
  show ?thesis using cat dog sc cell by (simp add: newScore_def)
qed

section \<open>analyzeBoardLogic without a dictionary\<close>

lemma emitWord_no_dictionary:
  "emitWord None clusterOf v a = emitWord (Some UNIV) clusterOf v a"
  by (simp add: emitWord_def)

lemma scanLineFrom_no_dictionary:
  "scanLineFrom None clusterOf v a cells = scanLineFrom (Some UNIV) clusterOf v a cells"
  by (induction cells arbitrary: v a) (simp_all add: emitWord_no_dictionary)

lemma scanLine_no_dictionary:
  "scanLine None clusterOf = scanLine (Some UNIV) clusterOf"
  by (intro ext) (simp add: scanLine_def scanLineFrom_no_dictionary)

lemma analyzeBoardLogic_no_dictionary:
  "analyzeBoardLogic grid None placementMode
     = analyzeBoardLogic grid (Some UNIV) placementMode"
  by (simp add: analyzeBoardLogic_def scanLine_no_dictionary)

lemma addCell_fold_word:
  "currentWord (foldl addCell v run) = currentWord v @ runText run"
  by (induction run arbitrary: v) (simp_all add: runText_def addCell_def)

lemma addCell_fold_ids:
  "lineCellIds (foldl addCell v run) = lineCellIds v @ map cellId run"
  by (induction run arbitrary: v) (simp_all add: addCell_def)

lemma runText_length:
  assumes "list_all (\<lambda>cell. truthy (letter cell)) run"
  shows "length run \<le> length (runText run)"
  using assms
proof (induction run)
  case Nil
  then show ?case by (simp add: runText_def)
next
  case (Cons cell run)
  have "the (letter cell) \<noteq> []"
    using Cons.prems by (auto simp: truthy_def split: option.splits)
  then have "1 \<le> length (the (letter cell))"
    by (cases "the (letter cell)") simp_all
  then show ?case using Cons by (simp add: runText_def)
qed

lemma scanLineFrom_run:
  assumes "list_all (\<lambda>cell. truthy (letter cell)) run"
  shows "scanLineFrom d co v a (run @ rest) = scanLineFrom d co (foldl addCell v run) a rest"
  using assms by (induction run arbitrary: v) simp_all

lemma emitWord_visited_mono:
  "set (anVisitedWords a) \<subseteq> set (anVisitedWords (emitWord d co v a))"
  by (auto simp: emitWord_def Let_def)

lemma scanLineFrom_visited_mono:
  "set (anVisitedWords a) \<subseteq> set (anVisitedWords (scanLineFrom d co v a cells))"
proof (induction cells arbitrary: v a)
  case Nil
  then show ?case using emitWord_visited_mono by simp
next
  case (Cons cell cells)
  show ?case
  proof (cases "truthy (letter cell)")
    case True
    then show ?thesis using Cons.IH by simp
  next
    case False
    let ?a = "if length (currentWord v) > 1 then emitWord d co v a else a"
    have "set (anVisitedWords a) \<subseteq> set (anVisitedWords ?a)"
      using emitWord_visited_mono by simp
    also have "\<dots> \<subseteq> set (anVisitedWords (scanLineFrom d co emptyVars ?a cells))"
      by (rule Cons.IH)
    finally show ?thesis using False by simp
  qed
qed

lemma scanLineFrom_prefix:
  assumes "pre \<noteq> []" "\<not> truthy (letter (last pre))"
  shows "\<exists>a'. set (anVisitedWords a) \<subseteq> set (anVisitedWords a')
            \<and> (\<forall>rest. scanLineFrom d co v a (pre @ rest) = scanLineFrom d co emptyVars a' rest)"
  using assms
proof (induction pre arbitrary: v a)
  case Nil
  then show ?case by simp
next
  case (Cons cell pre)
  show ?case
  proof (cases "pre = []")
    case True
    then have "\<not> truthy (letter cell)" using Cons.prems by simp
    then show ?thesis
      using True emitWord_visited_mono [of a d co v]
      by (intro exI [of _ "if length (currentWord v) > 1 then emitWord d co v a else a"]) simp
  next
    case False
    then have last: "\<not> truthy (letter (last pre))" using Cons.prems by simp
    show ?thesis
    proof (cases "truthy (letter cell)")
      case True
      obtain a' where a': "set (anVisitedWords a) \<subseteq> set (anVisitedWords a')"
        "\<forall>rest. scanLineFrom d co (addCell v cell) a (pre @ rest)
                 = scanLineFrom d co emptyVars a' rest"
        using Cons.IH [OF False last, of a "addCell v cell"] by blast
      then show ?thesis using True by (intro exI [of _ a']) simp
    next
      case cellFalse: False
      let ?a = "if length (currentWord v) > 1 then emitWord d co v a else a"
      obtain a' where a': "set (anVisitedWords ?a) \<subseteq> set (anVisitedWords a')"
        "\<forall>rest. scanLineFrom d co emptyVars ?a (pre @ rest)
                 = scanLineFrom d co emptyVars a' rest"
        using Cons.IH [OF False last, of ?a emptyVars] by blast
      have "set (anVisitedWords a) \<subseteq> set (anVisitedWords ?a)"
        using emitWord_visited_mono by simp
      then have "set (anVisitedWords a) \<subseteq> set (anVisitedWords a')" using a'(1) by blast
      then show ?thesis using cellFalse a'(2) by (intro exI [of _ a']) simp
    qed
  qed
qed

lemma emitWord_no_dictionary_visited:
  "joinComma (lineCellIds v) \<in> set (anVisitedWords (emitWord None co v a))"
  by (simp add: emitWord_def Let_def)

lemma scanLine_records_run:
  assumes "maximalRun pre run post cells" "length run > 1"
  shows "joinComma (map cellId run) \<in> set (anVisitedWords (scanLine None co a cells))"
proof -
  have cells: "cells = pre @ run @ post"
    and lettered: "list_all (\<lambda>cell. truthy (letter cell)) run"
    and before: "pre = [] \<or> \<not> truthy (letter (last pre))"
    and after: "post = [] \<or> \<not> truthy (letter (hd post))"
    using assms(1) by (simp_all add: maximalRun_def)
  obtain a' where a': "scanLineFrom None co emptyVars a (pre @ run @ post)
                         = scanLineFrom None co emptyVars a' (run @ post)"
  proof (cases "pre = []")
    case True
    then show ?thesis using that [of a] by simp
  next
    case False
    then show ?thesis
      using before scanLineFrom_prefix [of pre a None co emptyVars] that by blast
  qed
  define v where "v = foldl addCell emptyVars run"
  have word: "currentWord v = runText run" and ids: "lineCellIds v = map cellId run"
    by (simp_all add: v_def addCell_fold_word addCell_fold_ids emptyVars_def)
  have long: "length (currentWord v) > 1"
    using runText_length [OF lettered] assms(2) word by simp
  have step: "scanLineFrom None co emptyVars a' (run @ post) = scanLineFrom None co v a' post"
    unfolding v_def using lettered by (rule scanLineFrom_run)
  have key: "joinComma (map cellId run) \<in> set (anVisitedWords (emitWord None co v a'))"
    using emitWord_no_dictionary_visited [of v co a'] ids by simp
  have "joinComma (map cellId run) \<in> set (anVisitedWords (scanLineFrom None co v a' post))"
  proof (cases post)
    case Nil
    then show ?thesis using long key by simp
  next
    case (Cons p ps)
    then have "\<not> truthy (letter p)" using after by simp
    then have "scanLineFrom None co v a' post
                 = scanLineFrom None co emptyVars (emitWord None co v a') ps"
      using Cons long by simp
    then show ?thesis
      using key scanLineFrom_visited_mono [of "emitWord None co v a'" None co emptyVars ps]
      by auto
  qed
  then show ?thesis by (simp add: scanLine_def cells a' step)
qed


lemma emitWord_recorded:
  assumes "recorded a"
  shows "recorded (emitWord d co v a)"
  using assms by (auto simp: recorded_def emitWord_def Let_def)

lemma scanLineFrom_recorded:
  assumes "recorded a"
  shows "recorded (scanLineFrom d co v a cells)"
  using assms
  by (induction cells arbitrary: v a) (simp_all add: emitWord_recorded)

lemma scanLines_recorded:
  assumes "recorded a"
  shows "recorded (foldl (scanLine d co) a lines)"
  using assms
  by (induction lines arbitrary: a) (simp_all add: scanLine_def scanLineFrom_recorded)

lemma scanLines_visited_mono:
  "set (anVisitedWords a) \<subseteq> set (anVisitedWords (foldl (scanLine d co) a lines))"
proof (induction lines arbitrary: a)
  case Nil
  then show ?case by simp
next
  case (Cons l lines)
  have "set (anVisitedWords a) \<subseteq> set (anVisitedWords (scanLine d co a l))"
    unfolding scanLine_def by (rule scanLineFrom_visited_mono)
  also have "\<dots> \<subseteq> set (anVisitedWords (foldl (scanLine d co) (scanLine d co a l) lines))"
    by (rule Cons.IH)
  finally show ?case by simp
qed

lemma scanLines_records_run:
  assumes "line \<in> set lines" "maximalRun pre run post line" "length run > 1"
  shows "joinComma (map cellId run) \<in> set (anVisitedWords (foldl (scanLine None co) a lines))"
  using assms(1)
proof (induction lines arbitrary: a)
  case Nil
  then show ?case by simp
next
  case (Cons l lines)
  show ?case
  proof (cases "line = l")
    case True
    have "joinComma (map cellId run) \<in> set (anVisitedWords (scanLine None co a l))"
      using assms(2,3) True by (simp add: scanLine_records_run)
    then show ?thesis
      using scanLines_visited_mono [of "scanLine None co a l" None co lines] by auto
  next
    case False
    then have "line \<in> set lines" using Cons.prems by simp
    then show ?thesis using Cons.IH by simp
  qed
qed

lemma analyzeBoardLogic_lines:
  "resAllValidWords (analyzeBoardLogic grid d pm)
     = anAllValidWords
         (foldl (scanLine d (getClusterId pm (fst (snd (identifyClusters grid pm)))))
            emptyAnalysis (scannedLines grid))"
  by (simp add: analyzeBoardLogic_def scannedLines_def Let_def foldl_map
      split: prod.splits)

lemma analyzeBoardLogic_records_run:
  assumes "line \<in> set (scannedLines grid)" "maximalRun pre run post line" "length run > 1"
  shows "\<exists>w\<in>set (resAllValidWords (analyzeBoardLogic grid None pm)).
           joinComma (wmCellIds w) = joinComma (map cellId run)"
proof -
  let ?co = "getClusterId pm (fst (snd (identifyClusters grid pm)))"
  let ?a = "foldl (scanLine None ?co) emptyAnalysis (scannedLines grid)"
  have "recorded emptyAnalysis" by (simp add: recorded_def emptyAnalysis_def)
  then have "recorded ?a" by (rule scanLines_recorded)
  moreover have "joinComma (map cellId run) \<in> set (anVisitedWords ?a)"
    using assms by (rule scanLines_records_run)
  ultimately have "joinComma (map cellId run)
                     \<in> (\<lambda>w. joinComma (wmCellIds w)) ` set (anAllValidWords ?a)"
    by (simp add: recorded_def)
  then show ?thesis unfolding analyzeBoardLogic_lines by auto
qed

lemma row_scanned:
  assumes "r < length grid"
  shows "grid ! r \<in> set (scannedLines grid)"
  using assms by (simp add: scannedLines_def)

text \<open>
  C10. With no dictionary \<open>analyzeBoardLogic\<close> returns what it returns for a dictionary
  that holds every word: every maximal lettered run of more than one cell, in any row or
  column, has a word record with its sequence of cell identifiers, and chains and
  cascade outcomes are compiled from these words, while \<open>validatePlacementRules\<close>
  rejects every board. On the example board the letters QZ and XJZ compile to the chain
  IF, THEN with cascade outcome 26, and the turn that formed them scores 26.
\<close>

theorem no_dictionary_every_run_valid:
  "analyzeBoardLogic grid None placementMode
     = analyzeBoardLogic grid (Some UNIV) placementMode
   \<and> (line \<in> set (scannedLines grid) \<and> maximalRun pre run post line \<and> length run > 1 \<longrightarrow>
        (\<exists>w\<in>set (resAllValidWords (analyzeBoardLogic grid None placementMode)).
           joinComma (wmCellIds w) = joinComma (map cellId run)))
   \<and> \<not> validatePlacementRules grid gameMode placementMode None
   \<and> map (\<lambda>c. (chainId c, map (\<lambda>x. (op x, word x, wordScore x)) (compiledOps c)))
        (resChains (analyzeBoardLogic nonsenseBoard None ''GO''))
       = [(1, [(IF, ''QZ'', 20), (THEN, ''XJZ'', 26)])]
   \<and> map cascadeOutcomeOf (resChains (analyzeBoardLogic nonsenseBoard None ''GO''))
       = [Some 26]
   \<and> score (calculateChainScore (resChains (analyzeBoardLogic nonsenseBoard None ''GO''))
              (resAllValidWords (analyzeBoardLogic nonsenseBoard None ''GO'')) 1) = 26"
proof -
  have runs: "line \<in> set (scannedLines grid) \<and> maximalRun pre run post line
                \<and> length run > 1 \<longrightarrow>
        (\<exists>w\<in>set (resAllValidWords (analyzeBoardLogic grid None placementMode)).
           joinComma (wmCellIds w) = joinComma (map cellId run))"
    using analyzeBoardLogic_records_run [of line grid pre run post placementMode] by blast
  have closed: "\<not> validatePlacementRules grid gameMode placementMode None"
    by (simp add: validatePlacementRules_def)
  have ex1: "map (\<lambda>c. (chainId c, map (\<lambda>x. (op x, word x, wordScore x)) (compiledOps c)))
        (resChains (analyzeBoardLogic nonsenseBoard None ''GO''))
       = [(1, [(IF, ''QZ'', 20), (THEN, ''XJZ'', 26)])]"
    by code_simp
  have ex2: "map cascadeOutcomeOf (resChains (analyzeBoardLogic nonsenseBoard None ''GO''))
       = [Some 26]"
    by code_simp
  have ex3: "score (calculateChainScore
              (resChains (analyzeBoardLogic nonsenseBoard None ''GO''))
              (resAllValidWords (analyzeBoardLogic nonsenseBoard None ''GO'')) 1) = 26"
    by code_simp
  show ?thesis
    using analyzeBoardLogic_no_dictionary [of grid placementMode] runs closed ex1 ex2 ex3
    by blast
qed

theorem no_dictionary_every_run_valid_witness:
  "nonsenseBoard ! 4 \<in> set (scannedLines nonsenseBoard)
   \<and> maximalRun (take 4 (nonsenseBoard ! 4)) (take 2 (drop 4 (nonsenseBoard ! 4)))
        (drop 6 (nonsenseBoard ! 4)) (nonsenseBoard ! 4)
   \<and> (\<exists>w\<in>set (resAllValidWords (analyzeBoardLogic nonsenseBoard None ''ACROSTIC'')).
         joinComma (wmCellIds w)
           = joinComma (map cellId (take 2 (drop 4 (nonsenseBoard ! 4)))))
   \<and> joinComma (map cellId (take 2 (drop 4 (nonsenseBoard ! 4)))) = ''4-4,4-5''"
proof -
  have len: "4 < length nonsenseBoard" by code_simp
  have line: "nonsenseBoard ! 4 \<in> set (scannedLines nonsenseBoard)"
    using len by (rule row_scanned)
  have run: "maximalRun (take 4 (nonsenseBoard ! 4)) (take 2 (drop 4 (nonsenseBoard ! 4)))
        (drop 6 (nonsenseBoard ! 4)) (nonsenseBoard ! 4)"
    by code_simp
  have two: "length (take 2 (drop 4 (nonsenseBoard ! 4))) > 1" by code_simp
  have key: "joinComma (map cellId (take 2 (drop 4 (nonsenseBoard ! 4)))) = ''4-4,4-5''"
    by code_simp
  show ?thesis
    using no_dictionary_every_run_valid [of nonsenseBoard "''ACROSTIC''" "nonsenseBoard ! 4"
        "take 4 (nonsenseBoard ! 4)" "take 2 (drop 4 (nonsenseBoard ! 4))"
        "drop 6 (nonsenseBoard ! 4)" "''DYNAMIC''"]
      line run two key
    by blast
qed


section \<open>Placement evaluation: properties\<close>






























declare overlayPure.simps [simp del]









lemma evaluatePlacementPure_alt:
  "evaluatePlacementPure board tiles gameMode placementMode dictionary turnNo
       wordStr pivotIdx ar ac dir
     = (if offBoard dir ar ac pivotIdx (length wordStr) then - 1
        else if \<not> fst (overlayOf board tiles turnNo wordStr pivotIdx ar ac dir) then - 1
        else if pvPlaced (snd (overlayOf board tiles turnNo wordStr pivotIdx ar ac dir)) = 0
        then - 1
        else if validatePlacementRules
                  (pvGrid (snd (overlayOf board tiles turnNo wordStr pivotIdx ar ac dir)))
                  gameMode placementMode dictionary
        then scoreOf (pvGrid (snd (overlayOf board tiles turnNo wordStr pivotIdx ar ac dir)))
               (pvCoords (snd (overlayOf board tiles turnNo wordStr pivotIdx ar ac dir)))
               dictionary placementMode turnNo
        else - 1)"
  unfolding evaluatePlacementPure_def offBoard_def overlayOf_def startRow_def startCol_def
    Let_def
  by (auto split: prod.splits)















section \<open>No dictionary: every commit is blocked\<close>

text \<open>
  C7. With no dictionary, for every board and every mode, \<open>validatePlacementRules\<close>
  returns false and \<open>resolveGridWithBlanks\<close> returns no resolution; both return before
  they read the board. So \<open>commitPlayerTurn\<close> leaves the state as it is, and the move
  search's evaluation of any candidate returns the rejection sentinel.
\<close>

theorem no_dictionary_fails_closed:
  "validatePlacementRules grid gameMode placementMode None = False
   \<and> resolveGridWithBlanks grid gameMode placementMode None = None
   \<and> (gDictionary g = None \<longrightarrow> commitPlayerTurn g = g)
   \<and> evaluatePlacementPure grid tiles gameMode placementMode None turnNo
        wordStr pivotIdx ar ac dir = - 1"
proof -
  have v: "validatePlacementRules b gameMode placementMode None = False" for b
    by (simp add: validatePlacementRules_def)
  have r: "resolveGridWithBlanks grid gameMode placementMode None = None"
    by (simp add: resolveGridWithBlanks_def)
  have c: "gDictionary g = None \<longrightarrow> commitPlayerTurn g = g"
    by (simp add: commitPlayerTurn_def resolveGridWithBlanks_def)
  have e: "evaluatePlacementPure grid tiles gameMode placementMode None turnNo
        wordStr pivotIdx ar ac dir = - 1"
    unfolding evaluatePlacementPure_alt by (simp add: v)
  show ?thesis using v r c e by blast
qed

theorem no_dictionary_fails_closed_witness:
  "validatePlacementRules [] ''FIXED'' ''GO'' None = False
   \<and> resolveGridWithBlanks [] ''FIXED'' ''GO'' None = None
   \<and> commitPlayerTurn
        \<lparr>gGrid = [], gTurnMoves = [(5, 5, ''A'')], gPlayerHand = [], gCpuHand = [],
         gTileBag = [], gGameMode = ''FIXED'', gPlacementMode = ''GO'', gDictionary = None,
         gTurnCount = 1, gPlayerScore = 0, gCpuScore = 0, gIsCpuTurn = False\<rparr>
       = \<lparr>gGrid = [], gTurnMoves = [(5, 5, ''A'')], gPlayerHand = [], gCpuHand = [],
          gTileBag = [], gGameMode = ''FIXED'', gPlacementMode = ''GO'', gDictionary = None,
          gTurnCount = 1, gPlayerScore = 0, gCpuScore = 0, gIsCpuTurn = False\<rparr>"
  using no_dictionary_fails_closed [of "[]" "''FIXED''" "''GO''"
      "\<lparr>gGrid = [], gTurnMoves = [(5, 5, ''A'')], gPlayerHand = [], gCpuHand = [],
        gTileBag = [], gGameMode = ''FIXED'', gPlacementMode = ''GO'', gDictionary = None,
        gTurnCount = 1, gPlayerScore = 0, gCpuScore = 0, gIsCpuTurn = False\<rparr>"]
  by simp


end
